theory Spec2Isabelle
  imports
    Main
    "HOL-Library.Finite_Map"
    "HOL-Library.Char_ord"
    "HOL-Library.List_Lexorder"
begin

section \<open>Graffiti Monkey: tag propagation from instances to volumes to snapshots\<close>

text \<open>
  A shallow embedding of \<^verbatim>\<open>graffiti_monkey/core.py\<close>. The class \<^verbatim>\<open>GraffitiMonkey\<close>
  is a record of its attributes; every method takes the object and the world and returns
  its result together with the updated world. An exception is the \<open>Inl\<close> branch of the
  result.

  The source text has four slips of syntax (a missing colon at lines 109 and 216, and
  \<^verbatim>\<open>filters:\<close> for \<^verbatim>\<open>filters =\<close> at lines 125 and 231), so Python does not accept the
  file as it stands. They are read as the statement they are a typo of; everything else
  is taken as written, including the names that line 216 and line 218 use without binding
  them. The calls into the boto library (listing, \<^verbatim>\<open>add_tags\<close>) are modelled from the
  interface that the specification gives for them.
\<close>

subsection \<open>Values, dictionaries and the object store\<close>

text \<open>
  A tag value is a string or Python's \<^verbatim>\<open>None\<close> (\<^verbatim>\<open>tag_volume\<close> stores \<^verbatim>\<open>None\<close> for a
  missing instance id or device). A \<^verbatim>\<open>dict\<close> is a finite map. Dictionaries are objects:
  a variable or attribute holds a reference into the store, so that two names for one
  dictionary see each other's updates.
\<close>

type_synonym tagval = "string option"
type_synonym dict = "(string, tagval) fmap"
type_synonym ref = nat

datatype exn =
    EC2ResponseError string
  | BotoServerError string
  | KeyError
  | NameError string
  | GraffitiMonkeyException string

datatype level = DEBUG | INFO | ERROR

datatype logarg = S string | SO "string option" | N nat | D dict | Ids "string list"

type_synonym logentry = "level \<times> string \<times> logarg list"

subsection \<open>The provider\<close>

text \<open>
  What the EC2 connection answers from: the caller's account id and the inventory the
  account can see, keyed by resource id.
  \<open>replies\<close> scripts the provider's answers to the successive tag-write calls of a run:
  the \<open>n\<close>-th call (counting from 0) gets \<open>replies ! n\<close>, and \<open>Accepted\<close> beyond the
  end of the script. A rejected call raises \<^verbatim>\<open>EC2ResponseError\<close>, a server fault raises
  a \<^verbatim>\<open>BotoServerError\<close> that is not an \<^verbatim>\<open>EC2ResponseError\<close>.
\<close>

record attach_data =
  instance_id :: "string option"
  device :: "string option"

record pvolume =
  pv_status :: string
  pv_size :: nat
  pv_attach_data :: attach_data
  pv_tags :: dict

record psnapshot =
  ps_volume_id :: string
  ps_owner :: string
  ps_tags :: dict

datatype reply = Accepted | Rejected string | ServerFault string

record provider =
  account :: string
  p_volumes :: "(string, pvolume) fmap"
  p_snapshots :: "(string, psnapshot) fmap"
  p_instances :: "(string, dict) fmap"
  replies :: "reply list"

subsection \<open>Python objects\<close>

text \<open>
  The objects the connection hands out. \<open>tags\<close> is a reference to the object's tag
  dictionary. \<open>*_tagged\<close> is the answer of
  \<^verbatim>\<open>isinstance(resource, ec2.ec2object.TaggedEC2Object)\<close> for the object. An instance
  is only read, so its tags are held by value.
\<close>

record volume =
  v_id :: string
  v_status :: string
  v_size :: nat
  v_attach_data :: attach_data
  v_tags :: ref
  v_tagged :: bool

record snapshot =
  s_id :: string
  s_volume_id :: string
  s_tags :: ref
  s_tagged :: bool

record instance_obj =
  i_id :: string
  i_tags :: dict

datatype kind = VolumeKind | SnapshotKind

text \<open>What \<^verbatim>\<open>_set_resource_tags\<close> uses of a volume or snapshot object.\<close>

record resource =
  r_kind :: kind
  r_id :: string
  r_tags :: ref
  r_tagged :: bool

definition volume_resource :: "volume \<Rightarrow> resource" where
  "volume_resource v =
     \<lparr>r_kind = VolumeKind, r_id = v_id v, r_tags = v_tags v, r_tagged = v_tagged v\<rparr>"

definition snapshot_resource :: "snapshot \<Rightarrow> resource" where
  "snapshot_resource s =
     \<lparr>r_kind = SnapshotKind, r_id = s_id s, r_tags = s_tags s, r_tagged = s_tagged s\<rparr>"

subsection \<open>The world\<close>

text \<open>
  \<open>heap\<close> is the store of dictionary objects and \<open>next_ref\<close> the next unused reference.
  \<open>writes\<close> lists the tag-write calls issued so far (resource id and the tags sent),
  \<open>sleeps\<close> the arguments of the \<^verbatim>\<open>time.sleep\<close> calls, \<open>logged\<close> the log records.
\<close>

record world =
  heap :: "ref \<Rightarrow> dict"
  next_ref :: ref
  prov :: provider
  writes :: "(string \<times> dict) list"
  sleeps :: "nat list"
  logged :: "logentry list"

definition log_msg :: "level \<Rightarrow> string \<Rightarrow> logarg list \<Rightarrow> world \<Rightarrow> world" where
  "log_msg l fmt args w = w\<lparr>logged := logged w @ [(l, fmt, args)]\<rparr>"

definition sleep :: "nat \<Rightarrow> world \<Rightarrow> world" where
  "sleep n w = w\<lparr>sleeps := sleeps w @ [n]\<rparr>"

text \<open>\<^verbatim>\<open>{}\<close>: a new, empty dictionary.\<close>

definition new_dict :: "world \<Rightarrow> ref \<times> world" where
  "new_dict w =
     (next_ref w, w\<lparr>heap := (heap w)(next_ref w := fmempty), next_ref := Suc (next_ref w)\<rparr>)"

text \<open>\<^verbatim>\<open>d[k] = v\<close> on the dictionary that \<open>d\<close> refers to.\<close>

definition setitem :: "ref \<Rightarrow> string \<Rightarrow> tagval \<Rightarrow> world \<Rightarrow> world" where
  "setitem d k v w = w\<lparr>heap := (heap w)(d := fmupd k v (heap w d))\<rparr>"

subsection \<open>The GraffitiMonkey object\<close>

record monkey =
  instance_tags_to_propagate :: "string list"
  volume_tags_to_propagate :: "string list"
  region :: string
  profile :: string
  dryrun :: bool
  append :: bool
  volumes_to_tag :: "string list"
  snapshots_to_tag :: "string list"
  novolumes :: bool
  nosnapshots :: bool

subsection \<open>Writing tags\<close>

text \<open>
  Modelled from the spec: the provider's side of \<^verbatim>\<open>writeTags(resourceId, tagDelta)\<close>. The
  write is a merge: the tags sent are merged into the tags of the resource with that id
  (a key sent replaces the stored value, the other keys stay).
\<close>

definition store_tags :: "kind \<Rightarrow> string \<Rightarrow> dict \<Rightarrow> provider \<Rightarrow> provider" where
  "store_tags k rid tags p =
     (case k of
        VolumeKind \<Rightarrow>
          (case fmlookup (p_volumes p) rid of
             None \<Rightarrow> p
           | Some e \<Rightarrow> p\<lparr>p_volumes := fmupd rid (e\<lparr>pv_tags := pv_tags e ++\<^sub>f tags\<rparr>) (p_volumes p)\<rparr>)
      | SnapshotKind \<Rightarrow>
          (case fmlookup (p_snapshots p) rid of
             None \<Rightarrow> p
           | Some e \<Rightarrow> p\<lparr>p_snapshots := fmupd rid (e\<lparr>ps_tags := ps_tags e ++\<^sub>f tags\<rparr>) (p_snapshots p)\<rparr>))"

definition reply_at :: "provider \<Rightarrow> nat \<Rightarrow> reply" where
  "reply_at p n = (if n < length (replies p) then replies p ! n else Accepted)"

definition next_reply :: "world \<Rightarrow> reply" where
  "next_reply w = reply_at (prov w) (length (writes w))"

text \<open>
  Modelled from the spec: \<^verbatim>\<open>writeTags(resourceId, tagDelta) -> success | error\<close>, which the
  source reaches as boto's \<^verbatim>\<open>TaggedEC2Object.add_tags\<close>: one \<^verbatim>\<open>create_tags\<close> call for the
  object's id; when the call returns, the tags are also merged into the object's own
  dictionary (\<^verbatim>\<open>self.tags.update(tags)\<close>); when it raises, the object is left as it was.
\<close>

definition add_tags :: "resource \<Rightarrow> dict \<Rightarrow> world \<Rightarrow> (exn + unit) \<times> world" where
  "add_tags resource tags w =
     (let w1 = w\<lparr>writes := writes w @ [(r_id resource, tags)]\<rparr>
      in case next_reply w of
           Rejected code \<Rightarrow> (Inl (EC2ResponseError code), w1)
         | ServerFault code \<Rightarrow> (Inl (BotoServerError code), w1)
         | Accepted \<Rightarrow>
             (Inr (),
              w1\<lparr>prov := store_tags (r_kind resource) (r_id resource) tags (prov w1),
                 heap := (heap w1)(r_tags resource := heap w1 (r_tags resource) ++\<^sub>f tags)\<rparr>))"

text \<open>
  Lines 294 to 298 of \<^verbatim>\<open>_set_resource_tags\<close>: the loop over \<^verbatim>\<open>tags.iteritems()\<close>.
  A dictionary yields each of its items once, in an order Python leaves open; the model
  takes them by ascending key.
\<close>

definition delta_step :: "dict \<Rightarrow> string \<times> tagval \<Rightarrow> dict \<Rightarrow> dict" where
  "delta_step resource_tags item delta_tags =
     (case item of (tag_key, tag_value) \<Rightarrow>
        if tag_key |\<notin>| fmdom resource_tags \<or> fmlookup resource_tags tag_key \<noteq> Some tag_value
        then fmupd tag_key tag_value delta_tags
        else delta_tags)"

definition delta_tags :: "dict \<Rightarrow> dict \<Rightarrow> dict" where
  "delta_tags resource_tags tags = fold (delta_step resource_tags) (sorted_list_of_fmap tags) fmempty"

definition set_resource_tags :: "resource \<Rightarrow> ref \<Rightarrow> world \<Rightarrow> (exn + unit) \<times> world" where
  "set_resource_tags resource tags w =
     (if \<not> r_tagged resource
      then (Inl (GraffitiMonkeyException ''Resource is not an instance of TaggedEC2Object''), w)
      else
        let delta = delta_tags (heap w (r_tags resource)) (heap w tags)
        in if delta = fmempty then (Inr (), w)
           else add_tags resource delta w)"


subsection \<open>Queries\<close>

text \<open>
  Modelled from the spec: the connection's listing calls, which belong to the boto library
  and not to this repository, as section 6 of the specification describes them
  (\<^verbatim>\<open>listVolumes(idFilter?)\<close>, \<^verbatim>\<open>listSnapshots(idFilter?, ownerSelf)\<close>,
  \<^verbatim>\<open>listInstances(idFilter)\<close>). Each call builds new objects from the provider's inventory
  at the time of the call, in the provider's order (here: by ascending id); a volume or
  snapshot object gets a new dictionary holding the resource's tags. With a filter, only
  the resources whose id is in the filter are returned; \<^verbatim>\<open>owner = 'self'\<close> keeps the
  snapshots owned by the caller's account.

  The source writes the volume and instance filters as a list holding one dictionary
  (lines 101 to 103, 124 to 126, 230 to 232) and reads \<^verbatim>\<open>.instances\<close> off the answer of
  \<^verbatim>\<open>get_all_instances\<close> (line 129). Both are read as what the specification's interface
  says: a filter by id, and the list of the instances found.
\<close>

definition id_selected :: "string list option \<Rightarrow> string \<Rightarrow> bool" where
  "id_selected flt i = (case flt of None \<Rightarrow> True | Some ids \<Rightarrow> i \<in> set ids)"

definition volume_object :: "string \<times> pvolume \<Rightarrow> ref \<Rightarrow> volume" where
  "volume_object entry r =
     \<lparr>v_id = fst entry, v_status = pv_status (snd entry), v_size = pv_size (snd entry),
      v_attach_data = pv_attach_data (snd entry), v_tags = r, v_tagged = True\<rparr>"

definition snapshot_object :: "string \<times> psnapshot \<Rightarrow> ref \<Rightarrow> snapshot" where
  "snapshot_object entry r =
     \<lparr>s_id = fst entry, s_volume_id = ps_volume_id (snd entry), s_tags = r, s_tagged = True\<rparr>"

text \<open>The store after the dictionaries \<open>ds\<close> have been created at the next references.\<close>

definition alloc_dicts :: "dict list \<Rightarrow> world \<Rightarrow> world" where
  "alloc_dicts ds w =
     w\<lparr>heap := (\<lambda>r. if next_ref w \<le> r \<and> r < next_ref w + length ds
                      then ds ! (r - next_ref w) else heap w r),
       next_ref := next_ref w + length ds\<rparr>"

definition get_all_volumes :: "string list option \<Rightarrow> world \<Rightarrow> volume list \<times> world" where
  "get_all_volumes flt w =
     (let entries = filter (\<lambda>entry. id_selected flt (fst entry))
                      (sorted_list_of_fmap (p_volumes (prov w)))
      in (map2 volume_object entries [next_ref w ..< next_ref w + length entries],
          alloc_dicts (map (\<lambda>entry. pv_tags (snd entry)) entries) w))"

definition owner_matches :: "provider \<Rightarrow> string option \<Rightarrow> psnapshot \<Rightarrow> bool" where
  "owner_matches p owner e =
     (case owner of
        None \<Rightarrow> True
      | Some x \<Rightarrow> if x = ''self'' then ps_owner e = account p else ps_owner e = x)"

definition get_all_snapshots ::
  "string option \<Rightarrow> string list option \<Rightarrow> world \<Rightarrow> snapshot list \<times> world" where
  "get_all_snapshots owner flt w =
     (let entries = filter (\<lambda>entry. owner_matches (prov w) owner (snd entry) \<and>
                                     id_selected flt (fst entry))
                      (sorted_list_of_fmap (p_snapshots (prov w)))
      in (map2 snapshot_object entries [next_ref w ..< next_ref w + length entries],
          alloc_dicts (map (\<lambda>entry. ps_tags (snd entry)) entries) w))"

text \<open>
  Modelled from the spec: \<^verbatim>\<open>listInstances(idFilter)\<close>, the source's \<^verbatim>\<open>get_all_instances\<close>
  with the filter \<^verbatim>\<open>instance-id\<close>. The filter is the set of \<^verbatim>\<open>attach_data.instance_id\<close>
  values, \<^verbatim>\<open>None\<close> included for a volume that is not attached.
\<close>

definition get_all_instances :: "string option list \<Rightarrow> world \<Rightarrow> instance_obj list" where
  "get_all_instances ids w =
     map (\<lambda>entry. \<lparr>i_id = fst entry, i_tags = snd entry\<rparr>)
       (filter (\<lambda>entry. Some (fst entry) \<in> set ids) (sorted_list_of_fmap (p_instances (prov w))))"

subsection \<open>tag\_volume\<close>

text \<open>Python's truth value of an id or device attribute: \<^verbatim>\<open>None\<close> and \<^verbatim>\<open>''\<close> are false.\<close>

definition truthy :: "string option \<Rightarrow> bool" where
  "truthy x = (case x of None \<Rightarrow> False | Some s \<Rightarrow> s \<noteq> [])"

text \<open>The body of the loop at lines 178 to 182.\<close>

definition propagate_instance_tag :: "dict \<Rightarrow> ref \<Rightarrow> string \<Rightarrow> world \<Rightarrow> world" where
  "propagate_instance_tag instance_tags tags_to_set tag_name w =
     (let w1 = log_msg DEBUG ''Trying to propagate instance tag: %s'' [S tag_name] w
      in case fmlookup instance_tags tag_name of
           None \<Rightarrow> w1
         | Some v \<Rightarrow> setitem tags_to_set tag_name v w1)"

definition tag_volume ::
  "monkey \<Rightarrow> volume \<Rightarrow> (string, instance_obj) fmap \<Rightarrow> world \<Rightarrow> (exn + bool) \<times> world" where
  "tag_volume self volume instances w =
     (let instance_id = (if truthy (instance_id (v_attach_data volume))
                         then instance_id (v_attach_data volume) else None);
          device = (if truthy (device (v_attach_data volume))
                    then device (v_attach_data volume) else None)
      in case (case instance_id of None \<Rightarrow> None | Some i \<Rightarrow> fmlookup instances i) of
           None \<Rightarrow> (Inl KeyError, w)
         | Some inst \<Rightarrow>
             (let instance_tags = i_tags inst;
                  (fresh, w1) = new_dict w;
                  tags_to_set = (if append self then v_tags volume else fresh);
                  w2 = fold (propagate_instance_tag instance_tags tags_to_set)
                         (instance_tags_to_propagate self) w1;
                  w3 = setitem tags_to_set ''instance_id'' instance_id w2;
                  w4 = setitem tags_to_set ''device'' device w3
              in if dryrun self
                 then (Inr True,
                       log_msg INFO ''DRYRUN: Volume %s would have been tagged %s''
                         [S (v_id volume), D (heap w4 tags_to_set)] w4)
                 else (case set_resource_tags (volume_resource volume) tags_to_set w4 of
                         (Inl e, w5) \<Rightarrow> (Inl e, w5)
                       | (Inr u, w5) \<Rightarrow> (Inr True, w5))))"

subsection \<open>tag\_snapshot\<close>

text \<open>The body of the loop at lines 274 to 277; \<open>volume_tags\<close> is the parent's dictionary.\<close>

definition propagate_volume_tag :: "ref \<Rightarrow> ref \<Rightarrow> string \<Rightarrow> world \<Rightarrow> world" where
  "propagate_volume_tag volume_tags tags_to_set tag_name w =
     (let w1 = log_msg DEBUG ''Trying to propagate volume tag: %s'' [S tag_name] w
      in case fmlookup (heap w1 volume_tags) tag_name of
           None \<Rightarrow> w1
         | Some v \<Rightarrow> setitem tags_to_set tag_name v w1)"

definition tag_snapshot ::
  "monkey \<Rightarrow> snapshot \<Rightarrow> (string, volume) fmap \<Rightarrow> world \<Rightarrow> (exn + bool) \<times> world" where
  "tag_snapshot self snapshot volumes w =
     (let volume_id = s_volume_id snapshot
      in case fmlookup volumes volume_id of
           None \<Rightarrow> (Inl KeyError, w)
         | Some vol \<Rightarrow>
             (let volume_tags = v_tags vol;
                  (fresh, w1) = new_dict w;
                  tags_to_set = (if append self then s_tags snapshot else fresh);
                  w2 = fold (propagate_volume_tag volume_tags tags_to_set)
                         (volume_tags_to_propagate self) w1
              in if dryrun self
                 then (Inr True,
                       log_msg INFO ''DRYRUN: Snapshot %s would have been tagged %s''
                         [S (s_id snapshot), D (heap w2 tags_to_set)] w2)
                 else (case set_resource_tags (snapshot_resource snapshot) tags_to_set w2 of
                         (Inl e, w3) \<Rightarrow> (Inl e, w3)
                       | (Inr u, w3) \<Rightarrow> (Inr True, w3))))"

subsection \<open>The retry loop\<close>

text \<open>
  Lines 144 to 157 and 245 to 258: \<^verbatim>\<open>for attempt in range(5)\<close> around one call of the
  tagging method \<open>tag\<close>. The two loops differ in the method they call and in the word
  \<open>what\<close> of their log lines. \<open>code\<close> is the error code of the exception caught last,
  which the line after the loop logs. How the loop is left:
  \<^item> \<open>Success\<close>: the call returned (\<^verbatim>\<open>else: break\<close>);
  \<^item> \<open>PermanentFailure\<close>: \<^verbatim>\<open>EC2ResponseError\<close> was caught (\<^verbatim>\<open>break\<close>);
  \<^item> \<open>ExhaustedFailure\<close>: the range ran out (the \<^verbatim>\<open>else\<close> of the \<^verbatim>\<open>for\<close>);
  \<^item> \<open>Raised e\<close>: the call raised an exception that neither handler catches.
\<close>

datatype outcome = Success | PermanentFailure | ExhaustedFailure | Raised exn

function attempt_loop ::
  "(world \<Rightarrow> (exn + bool) \<times> world) \<Rightarrow> string \<Rightarrow> string \<Rightarrow> nat \<Rightarrow> string \<Rightarrow> world
     \<Rightarrow> outcome \<times> world" where
  "attempt_loop tag what rid attempt code w =
     (if attempt < 5 then
        (case tag w of
           (Inr b, w1) \<Rightarrow> (Success, w1)
         | (Inl (EC2ResponseError c), w1) \<Rightarrow>
             (PermanentFailure,
              log_msg ERROR (''Encountered Error %s on '' @ what @ '' %s'') [S c, S rid] w1)
         | (Inl (BotoServerError c), w1) \<Rightarrow>
             attempt_loop tag what rid (Suc attempt) c
               (sleep attempt
                 (log_msg ERROR
                   (''Encountered Error %s on '' @ what @ '' %s, waiting %d seconds then retrying'')
                   [S c, S rid, N attempt] w1))
         | (Inl e, w1) \<Rightarrow> (Raised e, w1))
      else
        (ExhaustedFailure,
         log_msg ERROR
           (''Encountered Error %s on '' @ what @ '' %s, %d retries failed, continuing'')
           [S code, S rid, N (attempt - 1)] w))"
  by pat_completeness auto
termination
  by (relation "measure (\<lambda>(tag, what, rid, attempt, code, w). 5 - attempt)") auto

declare attempt_loop.simps [simp del]

subsection \<open>tag\_volumes\<close>

text \<open>
  Lines 108 to 111: the loop over \<^verbatim>\<open>self._volumes_to_tag\<close>, which removes from the very
  list it iterates over. Python's list iterator keeps an index \<open>i\<close> into the list and
  stops when the index reaches the current length; \<^verbatim>\<open>remove\<close> deletes the first
  occurrence.
\<close>

function prune_volumes_to_tag :: "string list \<Rightarrow> nat \<Rightarrow> monkey \<Rightarrow> world \<Rightarrow> monkey \<times> world" where
  "prune_volumes_to_tag volume_ids i self w =
     (if i < length (volumes_to_tag self) then
        (let volume_id = volumes_to_tag self ! i
         in if volume_id \<notin> set volume_ids
            then prune_volumes_to_tag volume_ids (Suc i)
                   (self\<lparr>volumes_to_tag := remove1 volume_id (volumes_to_tag self)\<rparr>)
                   (log_msg INFO ''Volume %s does not exist and will not be tagged'' [S volume_id] w)
            else prune_volumes_to_tag volume_ids (Suc i) self w)
      else (self, w))"
  by pat_completeness auto
termination
proof (relation "measure (\<lambda>(volume_ids, i, self, w). length (volumes_to_tag self) - i)")
  show "wf (measure (\<lambda>(volume_ids, i, self, w). length (volumes_to_tag self) - i))"
    by simp
next
  fix volume_ids :: "string list" and i :: nat and self :: monkey and w :: world
    and x :: string
  assume i: "i < length (volumes_to_tag self)"
  have "length (remove1 x (volumes_to_tag self)) \<le> length (volumes_to_tag self)"
    by (simp add: length_remove1)
  with i show "((volume_ids, Suc i, self\<lparr>volumes_to_tag := remove1 x (volumes_to_tag self)\<rparr>,
       log_msg INFO ''Volume %s does not exist and will not be tagged'' [S x] w),
      volume_ids, i, self, w)
    \<in> measure (\<lambda>(volume_ids, i, self, w). length (volumes_to_tag self) - i)"
    by simp
next
  fix volume_ids :: "string list" and i :: nat and self :: monkey and w :: world
    and x :: string
  assume "i < length (volumes_to_tag self)"
  then show "((volume_ids, Suc i, self, w), volume_ids, i, self, w)
    \<in> measure (\<lambda>(volume_ids, i, self, w). length (volumes_to_tag self) - i)"
    by simp
qed

declare prune_volumes_to_tag.simps [simp del]

text \<open>
  Lines 135 to 157: the loop over the volumes, with its counters \<open>this_vol\<close> and
  \<open>storage_counter\<close>. An exception that the retry loop does not catch leaves the loop.
\<close>

fun volumes_loop ::
  "monkey \<Rightarrow> (string, instance_obj) fmap \<Rightarrow> nat \<Rightarrow> volume list \<Rightarrow> nat \<times> nat \<Rightarrow> world
     \<Rightarrow> (exn + nat \<times> nat) \<times> world" where
  "volumes_loop self instances total_vols [] counters w = (Inr counters, w)"
| "volumes_loop self instances total_vols (volume # rest) counters w =
     (let this_vol = fst counters + 1;
          storage_counter = snd counters + v_size volume;
          w1 = log_msg INFO ''Processing volume %d of %d total volumes''
                 [N this_vol, N total_vols] w
      in if v_status volume \<noteq> ''in-use''
         then volumes_loop self instances total_vols rest (this_vol, storage_counter)
                (log_msg DEBUG
                  ''Skipping %s as it is not attached to an EC2 instance, so there is nothing to propagate''
                  [S (v_id volume)] w1)
         else (case attempt_loop (tag_volume self volume instances) ''volume'' (v_id volume)
                      0 [] w1 of
                 (Raised e, w2) \<Rightarrow> (Inl e, w2)
               | (out, w2) \<Rightarrow>
                   volumes_loop self instances total_vols rest (this_vol, storage_counter) w2))"

text \<open>\<^verbatim>\<open>{ i.id: i for i in reservation.instances }\<close>: a later object with the same id wins.\<close>

definition instances_by_id :: "instance_obj list \<Rightarrow> (string, instance_obj) fmap" where
  "instances_by_id reservation = fold (\<lambda>i d. fmupd (i_id i) i d) reservation fmempty"

text \<open>
  \<^verbatim>\<open>tag_volumes\<close> returns \<^verbatim>\<open>True\<close> when there is no volume and falls off its end
  (\<^verbatim>\<open>None\<close>) otherwise. The method updates \<^verbatim>\<open>self._volumes_to_tag\<close>, which is the list
  object the caller passed to the constructor, so the object is returned too.
\<close>

definition list_volumes :: "monkey \<Rightarrow> world \<Rightarrow> volume list \<times> monkey \<times> world" where
  "list_volumes self w =
     (if volumes_to_tag self \<noteq> [] then
        (let w1 = log_msg INFO ''Using volume list from cli/config file'' [] w;
             (volumes, w2) = get_all_volumes (Some (volumes_to_tag self)) w1;
             volume_ids = map v_id volumes;
             (self1, w3) = prune_volumes_to_tag volume_ids 0 self w2
         in (volumes, self1, w3))
      else
        (let w1 = log_msg INFO ''Getting list of all volumes'' [] w;
             (volumes, w2) = get_all_volumes None w1
         in (volumes, self, w2)))"

definition tag_volumes :: "monkey \<Rightarrow> world \<Rightarrow> (exn + bool option) \<times> monkey \<times> world" where
  "tag_volumes self w =
     (case list_volumes self w of (volumes, self1, w1) \<Rightarrow>
        if volumes = [] then (Inr (Some True), self1, log_msg INFO ''No volumes found'' [] w1)
        else
          (let all_instance_ids = map (\<lambda>v. instance_id (v_attach_data v)) volumes;
               reservation = get_all_instances all_instance_ids w1;
               instances = instances_by_id reservation;
               w2 = log_msg DEBUG ''Volume list >%s<'' [Ids (map v_id volumes)] w1;
               total_vols = length volumes;
               w3 = log_msg INFO ''Found %d volume(s)'' [N total_vols] w2
           in case volumes_loop self1 instances total_vols volumes (0, 0) w3 of
                (Inl e, w4) \<Rightarrow> (Inl e, self1, w4)
              | (Inr counters, w4) \<Rightarrow>
                  (Inr None, self1,
                   log_msg INFO ''Completed processing all volumes'' []
                     (log_msg INFO ''Processed a total of {0} GB of AWS Volumes''
                       [N (snd counters)] w4))))"

subsection \<open>tag\_snapshots\<close>

fun snapshots_loop ::
  "monkey \<Rightarrow> (string, volume) fmap \<Rightarrow> nat \<Rightarrow> snapshot list \<Rightarrow> nat \<Rightarrow> world
     \<Rightarrow> (exn + nat) \<times> world" where
  "snapshots_loop self volumes total_snaps [] this_snap w = (Inr this_snap, w)"
| "snapshots_loop self volumes total_snaps (snapshot # rest) this_snap w =
     (let this_snap = this_snap + 1;
          w1 = log_msg INFO ''Processing snapshot %d of %d total snapshots''
                 [N this_snap, N total_snaps] w
      in case attempt_loop (tag_snapshot self snapshot volumes) ''snapshot'' (s_id snapshot)
                0 [] w1 of
           (Raised e, w2) \<Rightarrow> (Inl e, w2)
         | (out, w2) \<Rightarrow> snapshots_loop self volumes total_snaps rest this_snap w2)"

definition volumes_by_id :: "volume list \<Rightarrow> (string, volume) fmap" where
  "volumes_by_id volumes = fold (\<lambda>v d. fmupd (v_id v) v d) volumes fmempty"

text \<open>
  Lines 199 to 221. With a snapshot list from the configuration, the loop at line 215
  evaluates \<^verbatim>\<open>volume_id not in volume_ids\<close> in its first round. Neither name is bound in
  \<^verbatim>\<open>tag_snapshots\<close> or in the module, so the round raises \<^verbatim>\<open>NameError\<close>; the list is
  not empty on this branch, so there is a first round.
\<close>

definition list_snapshots :: "monkey \<Rightarrow> world \<Rightarrow> (exn + snapshot list) \<times> world" where
  "list_snapshots self w =
     (if snapshots_to_tag self \<noteq> [] then
        (let w1 = log_msg INFO ''Using snapshot list from cli/config file'' [] w;
             w2 = log_msg INFO ''Using volume list from cli/config file'' [] w1;
             (snapshots, w3) = get_all_snapshots (Some ''self'') (Some (snapshots_to_tag self)) w2;
             snapshot_ids = map s_id snapshots
         in case snapshots_to_tag self of
              [] \<Rightarrow> (Inr snapshots, w3)
            | snapshot_id # others \<Rightarrow> (Inl (NameError ''volume_id''), w3))
      else
        (let w1 = log_msg INFO ''Getting list of all snapshots'' [] w;
             (snapshots, w2) = get_all_snapshots (Some ''self'') None w1
         in (Inr snapshots, w2)))"

definition tag_snapshots :: "monkey \<Rightarrow> world \<Rightarrow> (exn + bool option) \<times> world" where
  "tag_snapshots self w =
     (case list_snapshots self w of
        (Inl e, w1) \<Rightarrow> (Inl e, w1)
      | (Inr snapshots, w1) \<Rightarrow>
          if snapshots = [] then (Inr (Some True), log_msg INFO ''No snapshots found'' [] w1)
          else
            (let all_volume_ids = map s_volume_id snapshots;
                 (parents, w2) = get_all_volumes (Some all_volume_ids) w1;
                 volumes = volumes_by_id parents;
                 w3 = log_msg DEBUG ''Snapshot list >%s<'' [Ids (map s_id snapshots)] w2;
                 total_snaps = length snapshots;
                 w4 = log_msg INFO ''Found %d snapshot(s)'' [N total_snaps] w3
             in case snapshots_loop self volumes total_snaps snapshots 0 w4 of
                  (Inl e, w5) \<Rightarrow> (Inl e, w5)
                | (Inr this_snap, w5) \<Rightarrow>
                    (Inr None, log_msg INFO ''Completed processing all snapshots'' [] w5)))"

text \<open>
  The list that lines 205 to 210, or line 221, bind to \<^verbatim>\<open>snapshots\<close>: what the snapshot
  stage works on. With a snapshot list from the configuration it is bound before the loop
  of line 215 starts.
\<close>

definition listed_snapshots :: "monkey \<Rightarrow> world \<Rightarrow> snapshot list" where
  "listed_snapshots self w =
     (if snapshots_to_tag self \<noteq> [] then
        (let w1 = log_msg INFO ''Using snapshot list from cli/config file'' [] w;
             w2 = log_msg INFO ''Using volume list from cli/config file'' [] w1;
             (snapshots, w3) = get_all_snapshots (Some ''self'') (Some (snapshots_to_tag self)) w2
         in snapshots)
      else
        (let w1 = log_msg INFO ''Getting list of all snapshots'' [] w;
             (snapshots, w2) = get_all_snapshots (Some ''self'') None w1
         in snapshots))"

subsection \<open>propagate\_tags\<close>

definition propagate_tags :: "monkey \<Rightarrow> world \<Rightarrow> (exn + unit) \<times> monkey \<times> world" where
  "propagate_tags self w =
     (case (if \<not> novolumes self then tag_volumes self w else (Inr None, self, w)) of
        (Inl e, self1, w1) \<Rightarrow> (Inl e, self1, w1)
      | (Inr r, self1, w1) \<Rightarrow>
          if \<not> nosnapshots self1
          then (case tag_snapshots self1 w1 of
                  (Inl e, w2) \<Rightarrow> (Inl e, self1, w2)
                | (Inr r', w2) \<Rightarrow> (Inr (), self1, w2))
          else (Inr (), self1, w1))"

subsection \<open>The dictionaries the tagging methods build\<close>

text \<open>
  Closed forms, used to state what \<^verbatim>\<open>tag_volume\<close> and \<^verbatim>\<open>tag_snapshot\<close> leave in
  \<^verbatim>\<open>tags_to_set\<close>: the allowlisted tags that the parent has, copied over the dictionary
  \<open>base\<close> the loop started from; for a volume the two extra keys on top.
\<close>

definition copy_tags :: "dict \<Rightarrow> string list \<Rightarrow> dict \<Rightarrow> dict" where
  "copy_tags src names base =
     fold (\<lambda>n d. case fmlookup src n of None \<Rightarrow> d | Some v \<Rightarrow> fmupd n v d) names base"

definition if_truthy :: "string option \<Rightarrow> string option" where
  "if_truthy x = (if truthy x then x else None)"

definition volume_tags_to_set :: "monkey \<Rightarrow> volume \<Rightarrow> dict \<Rightarrow> dict \<Rightarrow> dict" where
  "volume_tags_to_set self volume instance_tags base =
     fmupd ''device'' (if_truthy (device (v_attach_data volume)))
       (fmupd ''instance_id'' (if_truthy (instance_id (v_attach_data volume)))
         (copy_tags instance_tags (instance_tags_to_propagate self) base))"

text \<open>The parent that line 173 looks up, if the lookup succeeds.\<close>

definition volume_parent :: "(string, instance_obj) fmap \<Rightarrow> volume \<Rightarrow> instance_obj option" where
  "volume_parent instances volume =
     (case if_truthy (instance_id (v_attach_data volume)) of
        None \<Rightarrow> None
      | Some i \<Rightarrow> fmlookup instances i)"

text \<open>
  The dictionary that \<^verbatim>\<open>tags_to_set\<close> names: the resource's own dictionary in append mode
  (line 177, line 273), the new one otherwise.
\<close>

definition accumulator :: "monkey \<Rightarrow> ref \<Rightarrow> world \<Rightarrow> ref" where
  "accumulator self own w = (if append self then own else next_ref w)"

text \<open>The world when \<^verbatim>\<open>tag_volume\<close> reaches line 188, for a parent with tags \<open>instance_tags\<close>.\<close>

definition volume_prepared :: "monkey \<Rightarrow> volume \<Rightarrow> dict \<Rightarrow> world \<Rightarrow> world" where
  "volume_prepared self volume instance_tags w =
     (let t = accumulator self (v_tags volume) w;
          h = (heap w)(next_ref w := fmempty)
      in w\<lparr>heap := h(t := volume_tags_to_set self volume instance_tags (h t)),
           next_ref := Suc (next_ref w),
           logged := logged w @
             map (\<lambda>n. (DEBUG, ''Trying to propagate instance tag: %s'', [S n]))
               (instance_tags_to_propagate self)\<rparr>)"

text \<open>The world when \<^verbatim>\<open>tag_snapshot\<close> reaches line 279, for a parent whose tags are at \<open>volume_tags\<close>.\<close>

definition snapshot_prepared :: "monkey \<Rightarrow> snapshot \<Rightarrow> ref \<Rightarrow> world \<Rightarrow> world" where
  "snapshot_prepared self snapshot volume_tags w =
     (let t = accumulator self (s_tags snapshot) w;
          h = (heap w)(next_ref w := fmempty)
      in w\<lparr>heap := h(t := copy_tags (h volume_tags) (volume_tags_to_propagate self) (h t)),
           next_ref := Suc (next_ref w),
           logged := logged w @
             map (\<lambda>n. (DEBUG, ''Trying to propagate volume tag: %s'', [S n]))
               (volume_tags_to_propagate self)\<rparr>)"

text \<open>
  What \<^verbatim>\<open>_set_resource_tags\<close> computes as delta when it is called in replace mode: the
  dictionary built from the empty one, against the resource's own tags.
\<close>

definition volume_delta :: "monkey \<Rightarrow> volume \<Rightarrow> dict \<Rightarrow> world \<Rightarrow> dict" where
  "volume_delta self volume instance_tags w =
     delta_tags (heap w (v_tags volume)) (volume_tags_to_set self volume instance_tags fmempty)"

definition snapshot_delta :: "monkey \<Rightarrow> snapshot \<Rightarrow> ref \<Rightarrow> world \<Rightarrow> dict" where
  "snapshot_delta self snapshot volume_tags w =
     delta_tags (heap w (s_tags snapshot))
       (copy_tags (heap w volume_tags) (volume_tags_to_propagate self) fmempty)"

text \<open>
  How a run of the retry loop that started in \<open>w\<close> ended: it was left as \<open>out\<close>, its calls
  of the tagging method issued \<open>n\<close> write calls, each of them \<open>x\<close>, and it slept for the
  durations \<open>zs\<close> in turn.
\<close>

definition retried ::
  "outcome \<times> world \<Rightarrow> world \<Rightarrow> outcome \<Rightarrow> nat \<Rightarrow> string \<times> dict \<Rightarrow> nat list \<Rightarrow> bool" where
  "retried r w out n x zs \<longleftrightarrow>
     fst r = out \<and> writes (snd r) = writes w @ replicate n x \<and> sleeps (snd r) = sleeps w @ zs"

subsection \<open>Sample data\<close>

text \<open>Concrete objects and worlds on which the theorems below are instantiated.\<close>

definition ex_store :: world where
  "ex_store =
     \<lparr>heap = (\<lambda>r. fmempty)
        (0 := fmupd ''env'' (Some ''dev'') (fmupd ''owner'' (Some ''ops'') fmempty),
         1 := fmupd ''env'' (Some ''prod'') (fmupd ''owner'' (Some ''ops'') (fmupd ''device'' None fmempty))),
      next_ref = 2,
      prov = \<lparr>account = ''acct'', p_volumes = fmempty, p_snapshots = fmempty, p_instances = fmempty, replies = []\<rparr>,
      writes = [], sleeps = [], logged = []\<rparr>"

definition ex_resource :: resource where
  "ex_resource = \<lparr>r_kind = VolumeKind, r_id = ''v-1'', r_tags = 0, r_tagged = True\<rparr>"

definition ex_prov :: provider where
  "ex_prov =
     \<lparr>account = ''acct'',
      p_volumes =
        fmupd ''v-1''
          \<lparr>pv_status = ''in-use'', pv_size = 8,
           pv_attach_data = \<lparr>instance_id = Some ''i-1'', device = Some ''/dev/sdf''\<rparr>,
           pv_tags = fmempty\<rparr>
          (fmupd ''v-2''
            \<lparr>pv_status = ''available'', pv_size = 4,
             pv_attach_data = \<lparr>instance_id = None, device = None\<rparr>,
             pv_tags = fmupd ''x'' (Some ''y'') fmempty\<rparr>
            fmempty),
      p_snapshots =
        fmupd ''s-1'' \<lparr>ps_volume_id = ''v-1'', ps_owner = ''acct'', ps_tags = fmempty\<rparr>
          (fmupd ''s-9'' \<lparr>ps_volume_id = ''v-1'', ps_owner = ''other'', ps_tags = fmempty\<rparr>
            fmempty),
      p_instances = fmupd ''i-1'' (fmupd ''env'' (Some ''prod'') fmempty) fmempty,
      replies = []\<rparr>"

definition ex_world :: world where
  "ex_world =
     \<lparr>heap = (\<lambda>r. fmempty)(0 := fmupd ''x'' (Some ''y'') fmempty,
                             1 := fmupd ''env'' (Some ''prod'') fmempty),
      next_ref = 3, prov = ex_prov, writes = [], sleeps = [], logged = []\<rparr>"

definition ex_world_replying :: "reply list \<Rightarrow> world" where
  "ex_world_replying rs = ex_world\<lparr>prov := ex_prov\<lparr>replies := rs\<rparr>\<rparr>"

definition ex_volume :: volume where
  "ex_volume =
     \<lparr>v_id = ''v-1'', v_status = ''in-use'', v_size = 8,
      v_attach_data = \<lparr>instance_id = Some ''i-1'', device = Some ''/dev/sdf''\<rparr>,
      v_tags = 0, v_tagged = True\<rparr>"

definition ex_idle_volume :: volume where
  "ex_idle_volume =
     \<lparr>v_id = ''v-2'', v_status = ''available'', v_size = 4,
      v_attach_data = \<lparr>instance_id = None, device = None\<rparr>,
      v_tags = 0, v_tagged = True\<rparr>"

definition ex_parent_volume :: volume where
  "ex_parent_volume = ex_volume\<lparr>v_tags := 1\<rparr>"

definition ex_snapshot :: snapshot where
  "ex_snapshot = \<lparr>s_id = ''s-1'', s_volume_id = ''v-1'', s_tags = 2, s_tagged = True\<rparr>"

definition ex_orphan_snapshot :: snapshot where
  "ex_orphan_snapshot = \<lparr>s_id = ''s-7'', s_volume_id = ''v-gone'', s_tags = 2, s_tagged = True\<rparr>"

definition ex_orphan_world :: world where
  "ex_orphan_world =
     \<lparr>heap = (\<lambda>r. fmempty), next_ref = 0,
      prov = \<lparr>account = ''acct'', p_volumes = fmempty,
              p_snapshots =
                fmupd ''s-7'' \<lparr>ps_volume_id = ''v-gone'', ps_owner = ''acct'', ps_tags = fmempty\<rparr>
                  fmempty,
              p_instances = fmempty, replies = []\<rparr>,
      writes = [], sleeps = [], logged = []\<rparr>"

definition ex_instances :: "(string, instance_obj) fmap" where
  "ex_instances =
     fmupd ''i-1'' \<lparr>i_id = ''i-1'', i_tags = fmupd ''env'' (Some ''prod'') fmempty\<rparr> fmempty"

definition ex_volumes :: "(string, volume) fmap" where
  "ex_volumes = fmupd ''v-1'' ex_parent_volume fmempty"

definition ex_monkey :: monkey where
  "ex_monkey =
     \<lparr>instance_tags_to_propagate = [''env''], volume_tags_to_propagate = [''env''],
      region = ''us-east-1'', profile = ''default'', dryrun = False, append = False,
      volumes_to_tag = [], snapshots_to_tag = [], novolumes = False, nosnapshots = False\<rparr>"

text \<open>A configuration that asks for a snapshot of another account by its id.\<close>

definition ex_shared_request :: monkey where
  "ex_shared_request = ex_monkey\<lparr>snapshots_to_tag := [''s-1'', ''s-9'']\<rparr>"

section \<open>The tag-write step\<close>

lemma fold_delta_step_lookup:
  "distinct (map fst items) \<Longrightarrow>
   fmlookup (fold (delta_step cur) items acc) k =
     (case map_of items k of
        None \<Rightarrow> fmlookup acc k
      | Some v \<Rightarrow> if k |\<notin>| fmdom cur \<or> fmlookup cur k \<noteq> Some v then Some v else fmlookup acc k)"
proof (induction items arbitrary: acc)
  case Nil
  show ?case by simp
next
  case (Cons item items)
  obtain k' v' where item: "item = (k', v')" by (cases item)
  from Cons.prems have notin: "k' \<notin> fst ` set items" and dist: "distinct (map fst items)"
    by (simp_all add: item)
  from notin have none: "map_of items k' = None"
    by (simp add: map_of_eq_None_iff)
  have step: "fmlookup (delta_step cur (k', v') acc) x =
      (if x = k' \<and> (k' |\<notin>| fmdom cur \<or> fmlookup cur k' \<noteq> Some v') then Some v'
       else fmlookup acc x)" for x
    by (auto simp: delta_step_def)
  have "fmlookup (fold (delta_step cur) (item # items) acc) k =
      fmlookup (fold (delta_step cur) items (delta_step cur (k', v') acc)) k"
    by (simp add: item)
  also have "\<dots> =
      (case map_of items k of
         None \<Rightarrow> fmlookup (delta_step cur (k', v') acc) k
       | Some v \<Rightarrow> if k |\<notin>| fmdom cur \<or> fmlookup cur k \<noteq> Some v then Some v
                  else fmlookup (delta_step cur (k', v') acc) k)"
    by (rule Cons.IH [OF dist])
  finally show ?case
    using none by (auto simp: item step split: option.splits)
qed

lemma distinct_sorted_list_of_fmap: "distinct (map fst (sorted_list_of_fmap m))"
  by (simp add: sorted_list_of_fmap_def comp_def sorted_list_of_fset.rep_eq)

lemma fmlookup_delta_tags:
  "fmlookup (delta_tags cur des) k =
     (case fmlookup des k of
        None \<Rightarrow> None
      | Some v \<Rightarrow> if k |\<notin>| fmdom cur \<or> fmlookup cur k \<noteq> Some v then Some v else None)"
  by (simp add: delta_tags_def fold_delta_step_lookup [OF distinct_sorted_list_of_fmap]
      split: option.splits)

text \<open>
  Claim C1. For a taggable resource and any desired tags, \<^verbatim>\<open>_set_resource_tags\<close> computes
  as delta exactly the desired keys that the resource's current tags lack or hold with
  another value, each with its desired value. If the delta is empty, no write call is
  issued; otherwise exactly one write call is issued, for the resource's id and carrying
  exactly the delta.
\<close>

theorem set_resource_tags_delta:
  assumes "r_tagged resource"
  shows "(\<forall>k. fmlookup (delta_tags (heap w (r_tags resource)) (heap w tags)) k =
            (if k |\<in>| fmdom (heap w tags) \<and>
                (k |\<notin>| fmdom (heap w (r_tags resource)) \<or>
                 fmlookup (heap w (r_tags resource)) k \<noteq> fmlookup (heap w tags) k)
             then fmlookup (heap w tags) k else None)) \<and>
         writes (snd (set_resource_tags resource tags w)) =
           (if delta_tags (heap w (r_tags resource)) (heap w tags) = fmempty then writes w
            else writes w @ [(r_id resource, delta_tags (heap w (r_tags resource)) (heap w tags))])"
proof -
  have look: "fmlookup (delta_tags cur des) k =
            (if k |\<in>| fmdom des \<and> (k |\<notin>| fmdom cur \<or> fmlookup cur k \<noteq> fmlookup des k)
             then fmlookup des k else None)" for cur des :: dict and k
    by (cases "fmlookup des k") (auto simp: fmlookup_delta_tags fmlookup_dom_iff)
  have wr: "writes (snd (add_tags resource d w)) = writes w @ [(r_id resource, d)]" for d
    by (simp add: add_tags_def Let_def split: reply.splits)
  show ?thesis
    using assms by (simp add: look set_resource_tags_def Let_def wr)
qed

theorem set_resource_tags_delta_witness:
  "r_tagged ex_resource \<and>
   delta_tags (heap ex_store (r_tags ex_resource)) (heap ex_store 1) =
     fmupd ''device'' None (fmupd ''env'' (Some ''prod'') fmempty) \<and>
   writes (snd (set_resource_tags ex_resource 1 ex_store)) =
     [(''v-1'', fmupd ''device'' None (fmupd ''env'' (Some ''prod'') fmempty))]"
proof -
  have t: "r_tagged ex_resource" by (simp add: ex_resource_def)
  have d: "delta_tags (heap ex_store (r_tags ex_resource)) (heap ex_store 1) =
     fmupd ''device'' None (fmupd ''env'' (Some ''prod'') fmempty)"
    by code_simp
  have ne: "fmupd ''device'' None (fmupd ''env'' (Some ''prod'') fmempty) \<noteq> (fmempty :: dict)"
    by code_simp
  have w0: "writes ex_store = []" by (simp add: ex_store_def)
  have i: "r_id ex_resource = ''v-1''" by (simp add: ex_resource_def)
  from set_resource_tags_delta [OF t, of ex_store 1] show ?thesis
    using t d ne w0 i by simp
qed
section \<open>What the tagging methods do to the world\<close>

lemma fmlookup_copy_tags:
  "fmlookup (copy_tags src names base) k =
     (if k \<in> set names \<and> k |\<in>| fmdom src then fmlookup src k else fmlookup base k)"
proof (induction names arbitrary: base)
  case Nil
  show ?case by (simp add: copy_tags_def)
next
  case (Cons n names)
  have "copy_tags src (n # names) base =
      copy_tags src names (case fmlookup src n of None \<Rightarrow> base | Some v \<Rightarrow> fmupd n v base)"
    by (simp add: copy_tags_def)
  then show ?case
    by (auto simp: Cons.IH fmlookup_dom_iff split: option.splits)
qed

lemma copy_tags_Cons:
  "copy_tags src (n # names) base =
     copy_tags src names (case fmlookup src n of None \<Rightarrow> base | Some v \<Rightarrow> fmupd n v base)"
  by (simp add: copy_tags_def)

lemma propagate_instance_tag_eq:
  "propagate_instance_tag src t n w =
     w\<lparr>heap := (heap w)(t := (case fmlookup src n of None \<Rightarrow> heap w t | Some v \<Rightarrow> fmupd n v (heap w t))),
       logged := logged w @ [(DEBUG, ''Trying to propagate instance tag: %s'', [S n])]\<rparr>"
  by (simp add: propagate_instance_tag_def log_msg_def setitem_def Let_def split: option.splits)

lemma fold_propagate_instance_tag:
  "fold (propagate_instance_tag src t) names w =
     w\<lparr>heap := (heap w)(t := copy_tags src names (heap w t)),
       logged := logged w @ map (\<lambda>n. (DEBUG, ''Trying to propagate instance tag: %s'', [S n])) names\<rparr>"
proof (induction names arbitrary: w)
  case Nil
  show ?case by (simp add: copy_tags_def)
next
  case (Cons n names)
  have "fold (propagate_instance_tag src t) (n # names) w =
      fold (propagate_instance_tag src t) names (propagate_instance_tag src t n w)"
    by simp
  also have "\<dots> = fold (propagate_instance_tag src t) names
      (w\<lparr>heap := (heap w)(t := (case fmlookup src n of None \<Rightarrow> heap w t | Some v \<Rightarrow> fmupd n v (heap w t))),
         logged := logged w @ [(DEBUG, ''Trying to propagate instance tag: %s'', [S n])]\<rparr>)"
    by (simp only: propagate_instance_tag_eq)
  also have "\<dots> =
      w\<lparr>heap := (heap w)(t := copy_tags src (n # names) (heap w t)),
        logged := logged w @ map (\<lambda>n. (DEBUG, ''Trying to propagate instance tag: %s'', [S n])) (n # names)\<rparr>"
    unfolding Cons.IH by (rule world.equality) (simp_all add: copy_tags_Cons)
  finally show ?case .
qed


lemma tag_volume_no_parent:
  "volume_parent instances volume = None \<Longrightarrow> tag_volume self volume instances w = (Inl KeyError, w)"
  by (simp add: tag_volume_def volume_parent_def if_truthy_def split: option.splits)

lemma tag_volume_eq:
  assumes "volume_parent instances volume = Some inst"
  shows "tag_volume self volume instances w =
     (let t = accumulator self (v_tags volume) w;
          w4 = volume_prepared self volume (i_tags inst) w
      in if dryrun self
         then (Inr True,
               log_msg INFO ''DRYRUN: Volume %s would have been tagged %s''
                 [S (v_id volume), D (heap w4 t)] w4)
         else (case set_resource_tags (volume_resource volume) t w4 of
                 (Inl e, w5) \<Rightarrow> (Inl e, w5)
               | (Inr u, w5) \<Rightarrow> (Inr True, w5)))"
proof -
  let ?T = "if append self then v_tags volume else fst (new_dict w)"
  have T: "?T = accumulator self (v_tags volume) w"
    by (simp add: accumulator_def new_dict_def)
  have w4: "setitem ?T ''device''
          (if truthy (device (v_attach_data volume)) then device (v_attach_data volume) else None)
          (setitem ?T ''instance_id''
            (if truthy (instance_id (v_attach_data volume)) then instance_id (v_attach_data volume) else None)
            (fold (propagate_instance_tag (i_tags inst) ?T) (instance_tags_to_propagate self)
               (snd (new_dict w))))
        = volume_prepared self volume (i_tags inst) w"
    unfolding fold_propagate_instance_tag T
    by (rule world.equality)
      (simp_all add: setitem_def new_dict_def volume_prepared_def volume_tags_to_set_def Let_def
         if_truthy_def)
  from assms have look: "(case (if truthy (instance_id (v_attach_data volume))
                         then instance_id (v_attach_data volume) else None) of None \<Rightarrow> None | Some i \<Rightarrow> fmlookup instances i) = Some inst"
    by (simp add: volume_parent_def if_truthy_def)
  show ?thesis
    unfolding tag_volume_def Let_def look option.case case_prod_beta w4
    unfolding T ..
qed


lemma fmupd_same: "fmlookup m k = Some v \<Longrightarrow> fmupd k v m = m"
  by (rule fmap_ext) auto

lemma delta_tags_self: "delta_tags d d = fmempty"
  by (rule fmap_ext) (auto simp: fmlookup_delta_tags fmlookup_dom_iff split: option.splits)

lemma delta_tags_empty_iff:
  "delta_tags cur des = fmempty \<longleftrightarrow> (\<forall>k v. fmlookup des k = Some v \<longrightarrow> fmlookup cur k = Some v)"
proof
  assume e: "delta_tags cur des = fmempty"
  show "\<forall>k v. fmlookup des k = Some v \<longrightarrow> fmlookup cur k = Some v"
  proof (intro allI impI)
    fix k v assume "fmlookup des k = Some v"
    moreover have "fmlookup (delta_tags cur des) k = None" by (simp add: e)
    ultimately show "fmlookup cur k = Some v"
      by (simp add: fmlookup_delta_tags split: if_splits)
  qed
next
  assume "\<forall>k v. fmlookup des k = Some v \<longrightarrow> fmlookup cur k = Some v"
  then show "delta_tags cur des = fmempty"
    by (intro fmap_ext) (auto simp: fmlookup_delta_tags fmlookup_dom_iff split: option.splits)
qed

lemma propagate_volume_tag_eq:
  "propagate_volume_tag vt t n w =
     w\<lparr>heap := (heap w)(t := (case fmlookup (heap w vt) n of None \<Rightarrow> heap w t | Some v \<Rightarrow> fmupd n v (heap w t))),
       logged := logged w @ [(DEBUG, ''Trying to propagate volume tag: %s'', [S n])]\<rparr>"
  by (simp add: propagate_volume_tag_def log_msg_def setitem_def Let_def split: option.splits)

lemma copy_tags_self: "copy_tags m names m = m"
  by (rule fmap_ext) (auto simp: fmlookup_copy_tags)

lemma fold_propagate_volume_tag:
  "fold (propagate_volume_tag vt t) names w =
     w\<lparr>heap := (heap w)(t := copy_tags (heap w vt) names (heap w t)),
       logged := logged w @ map (\<lambda>n. (DEBUG, ''Trying to propagate volume tag: %s'', [S n])) names\<rparr>"
proof (induction names arbitrary: w)
  case Nil
  show ?case by (simp add: copy_tags_def)
next
  case (Cons n names)
  let ?d = "case fmlookup (heap w vt) n of None \<Rightarrow> heap w t | Some v \<Rightarrow> fmupd n v (heap w t)"
  let ?w' = "w\<lparr>heap := (heap w)(t := ?d),
         logged := logged w @ [(DEBUG, ''Trying to propagate volume tag: %s'', [S n])]\<rparr>"
  have src: "copy_tags (heap ?w' vt) names (heap ?w' t) = copy_tags (heap w vt) (n # names) (heap w t)"
  proof (cases "vt = t")
    case True
    have "?d = heap w t"
      by (auto simp: True fmupd_same split: option.splits)
    then show ?thesis by (simp add: True copy_tags_self)
  next
    case False
    then show ?thesis by (simp add: copy_tags_Cons)
  qed
  have "fold (propagate_volume_tag vt t) (n # names) w =
      fold (propagate_volume_tag vt t) names (propagate_volume_tag vt t n w)"
    by simp
  also have "\<dots> = fold (propagate_volume_tag vt t) names ?w'"
    by (simp only: propagate_volume_tag_eq)
  also have "\<dots> =
      w\<lparr>heap := (heap w)(t := copy_tags (heap w vt) (n # names) (heap w t)),
        logged := logged w @ map (\<lambda>n. (DEBUG, ''Trying to propagate volume tag: %s'', [S n])) (n # names)\<rparr>"
    unfolding Cons.IH src by (rule world.equality) simp_all
  finally show ?case .
qed


lemma tag_snapshot_no_parent:
  "fmlookup volumes (s_volume_id snapshot) = None \<Longrightarrow>
   tag_snapshot self snapshot volumes w = (Inl KeyError, w)"
  by (simp add: tag_snapshot_def)

lemma tag_snapshot_eq:
  assumes "fmlookup volumes (s_volume_id snapshot) = Some vol"
  shows "tag_snapshot self snapshot volumes w =
     (let t = accumulator self (s_tags snapshot) w;
          w2 = snapshot_prepared self snapshot (v_tags vol) w
      in if dryrun self
         then (Inr True,
               log_msg INFO ''DRYRUN: Snapshot %s would have been tagged %s''
                 [S (s_id snapshot), D (heap w2 t)] w2)
         else (case set_resource_tags (snapshot_resource snapshot) t w2 of
                 (Inl e, w3) \<Rightarrow> (Inl e, w3)
               | (Inr u, w3) \<Rightarrow> (Inr True, w3)))"
proof -
  let ?T = "if append self then s_tags snapshot else fst (new_dict w)"
  have T: "?T = accumulator self (s_tags snapshot) w"
    by (simp add: accumulator_def new_dict_def)
  have w2: "fold (propagate_volume_tag (v_tags vol) ?T) (volume_tags_to_propagate self)
               (snd (new_dict w))
        = snapshot_prepared self snapshot (v_tags vol) w"
    unfolding fold_propagate_volume_tag T
    by (rule world.equality)
      (simp_all add: new_dict_def snapshot_prepared_def Let_def)
  show ?thesis
    unfolding tag_snapshot_def Let_def assms option.case case_prod_beta w2
    unfolding T ..
qed

lemma volume_prepared_frame [simp]:
  "writes (volume_prepared self volume it w) = writes w"
  "prov (volume_prepared self volume it w) = prov w"
  "sleeps (volume_prepared self volume it w) = sleeps w"
  "next_ref (volume_prepared self volume it w) = Suc (next_ref w)"
  by (simp_all add: volume_prepared_def Let_def)

lemma snapshot_prepared_frame [simp]:
  "writes (snapshot_prepared self snapshot vt w) = writes w"
  "prov (snapshot_prepared self snapshot vt w) = prov w"
  "sleeps (snapshot_prepared self snapshot vt w) = sleeps w"
  "next_ref (snapshot_prepared self snapshot vt w) = Suc (next_ref w)"
  by (simp_all add: snapshot_prepared_def Let_def)

lemma log_msg_frame [simp]:
  "writes (log_msg l f a w) = writes w"
  "prov (log_msg l f a w) = prov w"
  "sleeps (log_msg l f a w) = sleeps w"
  "heap (log_msg l f a w) = heap w"
  "next_ref (log_msg l f a w) = next_ref w"
  "logged (log_msg l f a w) = logged w @ [(l, f, a)]"
  by (simp_all add: log_msg_def)

lemma sleep_frame [simp]:
  "writes (sleep n w) = writes w"
  "prov (sleep n w) = prov w"
  "sleeps (sleep n w) = sleeps w @ [n]"
  "heap (sleep n w) = heap w"
  "next_ref (sleep n w) = next_ref w"
  "logged (sleep n w) = logged w"
  by (simp_all add: sleep_def)

lemma tag_volume_dryrun:
  assumes "dryrun self"
  shows "writes (snd (tag_volume self volume instances w)) = writes w \<and>
         prov (snd (tag_volume self volume instances w)) = prov w"
proof (cases "volume_parent instances volume")
  case None
  then show ?thesis by (simp add: tag_volume_no_parent)
next
  case (Some inst)
  then show ?thesis using assms by (simp add: tag_volume_eq Let_def)
qed

lemma tag_snapshot_dryrun:
  assumes "dryrun self"
  shows "writes (snd (tag_snapshot self snapshot volumes w)) = writes w \<and>
         prov (snd (tag_snapshot self snapshot volumes w)) = prov w"
proof (cases "fmlookup volumes (s_volume_id snapshot)")
  case None
  then show ?thesis by (simp add: tag_snapshot_no_parent)
next
  case (Some vol)
  then show ?thesis using assms by (simp add: tag_snapshot_eq Let_def)
qed

lemma attempt_loop_quiet:
  assumes "\<And>w. writes (snd (tag w)) = writes w \<and> prov (snd (tag w)) = prov w"
  shows "writes (snd (attempt_loop tag what rid attempt code w)) = writes w \<and>
         prov (snd (attempt_loop tag what rid attempt code w)) = prov w"
  using assms
proof (induction tag what rid attempt code w rule: attempt_loop.induct)
  case (1 tag what rid attempt code w)
  obtain r w1 where r: "tag w = (r, w1)" by (cases "tag w")
  from "1.prems" [of w] r have q: "writes w1 = writes w \<and> prov w1 = prov w"
    by simp
  show ?case
    using "1.IH" "1.prems" q r
    by (simp add: attempt_loop.simps [of tag what rid attempt code w]
        split: sum.splits exn.splits)
qed


lemma alloc_dicts_frame [simp]:
  "writes (alloc_dicts ds w) = writes w"
  "prov (alloc_dicts ds w) = prov w"
  "sleeps (alloc_dicts ds w) = sleeps w"
  "logged (alloc_dicts ds w) = logged w"
  "next_ref (alloc_dicts ds w) = next_ref w + length ds"
  by (simp_all add: alloc_dicts_def)

lemma get_all_volumes_frame [simp]:
  "writes (snd (get_all_volumes flt w)) = writes w"
  "prov (snd (get_all_volumes flt w)) = prov w"
  "sleeps (snd (get_all_volumes flt w)) = sleeps w"
  "logged (snd (get_all_volumes flt w)) = logged w"
  by (simp_all add: get_all_volumes_def Let_def)

lemma get_all_snapshots_frame [simp]:
  "writes (snd (get_all_snapshots owner flt w)) = writes w"
  "prov (snd (get_all_snapshots owner flt w)) = prov w"
  "sleeps (snd (get_all_snapshots owner flt w)) = sleeps w"
  "logged (snd (get_all_snapshots owner flt w)) = logged w"
  by (simp_all add: get_all_snapshots_def Let_def)

lemma prune_volumes_to_tag_world:
  "writes (snd (prune_volumes_to_tag ids i self w)) = writes w \<and>
   prov (snd (prune_volumes_to_tag ids i self w)) = prov w \<and>
   sleeps (snd (prune_volumes_to_tag ids i self w)) = sleeps w \<and>
   heap (snd (prune_volumes_to_tag ids i self w)) = heap w \<and>
   next_ref (snd (prune_volumes_to_tag ids i self w)) = next_ref w"
proof (induction ids i self w rule: prune_volumes_to_tag.induct)
  case (1 ids i self w)
  show ?case
    using "1.IH"
    by (simp add: prune_volumes_to_tag.simps [of ids i self w] Let_def)
qed

lemma prune_volumes_to_tag_self:
  "(fst (prune_volumes_to_tag ids i self w))\<lparr>volumes_to_tag := l\<rparr> = self\<lparr>volumes_to_tag := l\<rparr>"
proof (induction ids i self w arbitrary: l rule: prune_volumes_to_tag.induct)
  case (1 ids i self w)
  show ?case
  proof (cases "i < length (volumes_to_tag self)")
    case False
    then show ?thesis
      by (simp add: prune_volumes_to_tag.simps [of ids i self w])
  next
    case True
    show ?thesis
    proof (cases "volumes_to_tag self ! i \<in> set ids")
      case present: True
      have "prune_volumes_to_tag ids i self w = prune_volumes_to_tag ids (Suc i) self w"
        using True present by (simp add: prune_volumes_to_tag.simps [of ids i self w])
      then show ?thesis
        using "1.IH"(2) [OF True refl, of l] present by simp
    next
      case absent: False
      let ?self' = "self\<lparr>volumes_to_tag := remove1 (volumes_to_tag self ! i) (volumes_to_tag self)\<rparr>"
      let ?w' = "log_msg INFO ''Volume %s does not exist and will not be tagged''
              [S (volumes_to_tag self ! i)] w"
      have eq: "prune_volumes_to_tag ids i self w = prune_volumes_to_tag ids (Suc i) ?self' ?w'"
        using True absent by (simp add: prune_volumes_to_tag.simps [of ids i self w] Let_def)
      have "(fst (prune_volumes_to_tag ids (Suc i) ?self' ?w'))\<lparr>volumes_to_tag := l\<rparr> =
            ?self'\<lparr>volumes_to_tag := l\<rparr>"
        by (rule "1.IH"(1) [OF True refl absent])
      then show ?thesis
        unfolding eq by simp
    qed
  qed
qed


lemma volumes_loop_dryrun:
  assumes "dryrun self"
  shows "writes (snd (volumes_loop self instances tot vols c w)) = writes w \<and>
         prov (snd (volumes_loop self instances tot vols c w)) = prov w"
proof (induction vols arbitrary: c w)
  case Nil
  show ?case by simp
next
  case (Cons volume rest)
  let ?w1 = "log_msg INFO ''Processing volume %d of %d total volumes'' [N (fst c + 1), N tot] w"
  obtain out w2 where a: "attempt_loop (tag_volume self volume instances) ''volume'' (v_id volume)
      0 [] ?w1 = (out, w2)"
    by (cases "attempt_loop (tag_volume self volume instances) ''volume'' (v_id volume) 0 [] ?w1")
  have "writes (snd (attempt_loop (tag_volume self volume instances) ''volume'' (v_id volume)
      0 [] ?w1)) = writes ?w1 \<and>
     prov (snd (attempt_loop (tag_volume self volume instances) ''volume'' (v_id volume)
      0 [] ?w1)) = prov ?w1"
    by (rule attempt_loop_quiet) (rule tag_volume_dryrun [OF assms])
  with a have q: "writes w2 = writes w" "prov w2 = prov w" by simp_all
  show ?case
    using a q by (simp add: Cons.IH Let_def split: outcome.splits)
qed

lemma snapshots_loop_dryrun:
  assumes "dryrun self"
  shows "writes (snd (snapshots_loop self volumes tot snaps c w)) = writes w \<and>
         prov (snd (snapshots_loop self volumes tot snaps c w)) = prov w"
proof (induction snaps arbitrary: c w)
  case Nil
  show ?case by simp
next
  case (Cons snapshot rest)
  let ?w1 = "log_msg INFO ''Processing snapshot %d of %d total snapshots'' [N (c + 1), N tot] w"
  obtain out w2 where a: "attempt_loop (tag_snapshot self snapshot volumes) ''snapshot'' (s_id snapshot)
      0 [] ?w1 = (out, w2)"
    by (cases "attempt_loop (tag_snapshot self snapshot volumes) ''snapshot'' (s_id snapshot) 0 [] ?w1")
  have "writes (snd (attempt_loop (tag_snapshot self snapshot volumes) ''snapshot'' (s_id snapshot)
      0 [] ?w1)) = writes ?w1 \<and>
     prov (snd (attempt_loop (tag_snapshot self snapshot volumes) ''snapshot'' (s_id snapshot)
      0 [] ?w1)) = prov ?w1"
    by (rule attempt_loop_quiet) (rule tag_snapshot_dryrun [OF assms])
  with a have q: "writes w2 = writes w" "prov w2 = prov w" by simp_all
  show ?case
    using a q by (simp add: Cons.IH Let_def split: outcome.splits)
qed

lemma list_volumes_frame:
  "writes (snd (snd (list_volumes self w))) = writes w \<and>
   prov (snd (snd (list_volumes self w))) = prov w"
  by (simp add: list_volumes_def Let_def case_prod_beta prune_volumes_to_tag_world)

lemma list_volumes_self:
  "(fst (snd (list_volumes self w)))\<lparr>volumes_to_tag := l\<rparr> = self\<lparr>volumes_to_tag := l\<rparr>"
  by (simp add: list_volumes_def Let_def case_prod_beta prune_volumes_to_tag_self)

lemma list_volumes_dryrun: "dryrun (fst (snd (list_volumes self w))) = dryrun self"
proof -
  have "dryrun ((fst (snd (list_volumes self w)))\<lparr>volumes_to_tag := []\<rparr>) = dryrun (self\<lparr>volumes_to_tag := []\<rparr>)"
    by (simp only: list_volumes_self)
  then show ?thesis by simp
qed

lemma list_snapshots_frame:
  "writes (snd (list_snapshots self w)) = writes w \<and>
   prov (snd (list_snapshots self w)) = prov w"
  by (simp add: list_snapshots_def Let_def case_prod_beta split: list.splits)

lemma tag_volumes_dryrun:
  assumes "dryrun self"
  shows "writes (snd (snd (tag_volumes self w))) = writes w \<and>
         prov (snd (snd (tag_volumes self w))) = prov w"
proof -
  obtain volumes self1 w1 where l: "list_volumes self w = (volumes, self1, w1)"
    by (cases "list_volumes self w")
  from list_volumes_frame [of self w] l have q: "writes w1 = writes w" "prov w1 = prov w"
    by simp_all
  from list_volumes_dryrun [of self w] l assms have d: "dryrun self1" by simp
  let ?instances = "instances_by_id (get_all_instances
      (map (\<lambda>v. instance_id (v_attach_data v)) volumes) w1)"
  let ?w3 = "log_msg INFO ''Found %d volume(s)'' [N (length volumes)]
      (log_msg DEBUG ''Volume list >%s<'' [Ids (map v_id volumes)] w1)"
  obtain r w4 where v: "volumes_loop self1 ?instances (length volumes) volumes (0, 0) ?w3 = (r, w4)"
    by (cases "volumes_loop self1 ?instances (length volumes) volumes (0, 0) ?w3")
  from volumes_loop_dryrun [OF d, of ?instances "length volumes" volumes "(0, 0)" ?w3] v q
  have "writes w4 = writes w" "prov w4 = prov w" by simp_all
  then show ?thesis
    using q by (simp add: tag_volumes_def l v Let_def split: sum.splits)
qed

lemma tag_snapshots_dryrun:
  assumes "dryrun self"
  shows "writes (snd (tag_snapshots self w)) = writes w \<and>
         prov (snd (tag_snapshots self w)) = prov w"
proof -
  obtain r w1 where l: "list_snapshots self w = (r, w1)"
    by (cases "list_snapshots self w")
  from list_snapshots_frame [of self w] l have q: "writes w1 = writes w" "prov w1 = prov w"
    by simp_all
  show ?thesis
    using q snapshots_loop_dryrun [OF assms]
    by (simp add: tag_snapshots_def l Let_def case_prod_beta split: prod.splits sum.splits)
qed


section \<open>Dry run\<close>

text \<open>
  Claim C2, as the code has it. With the dryrun flag set, neither \<^verbatim>\<open>tag_volume\<close> nor
  \<^verbatim>\<open>tag_snapshot\<close> issues a write call, whatever the resource and the rest of the
  configuration: the write log and the provider's state are as before. Both return
  \<^verbatim>\<open>True\<close> when the resource's parent is in the parent mapping; when it is not, the lookup
  at line 173 (line 269) raises \<^verbatim>\<open>KeyError\<close> before the dry-run test is reached, still
  without a write call. A whole run of \<^verbatim>\<open>propagate_tags\<close> issues no write call and leaves
  the provider unchanged either way.
\<close>

theorem dryrun_never_writes:
  assumes "dryrun self"
  shows "(writes (snd (tag_volume self volume instances w)) = writes w \<and>
          prov (snd (tag_volume self volume instances w)) = prov w) \<and>
         (writes (snd (tag_snapshot self snapshot volumes w)) = writes w \<and>
          prov (snd (tag_snapshot self snapshot volumes w)) = prov w) \<and>
         (volume_parent instances volume \<noteq> None \<longrightarrow>
            fst (tag_volume self volume instances w) = Inr True) \<and>
         (fmlookup volumes (s_volume_id snapshot) \<noteq> None \<longrightarrow>
            fst (tag_snapshot self snapshot volumes w) = Inr True) \<and>
         (writes (snd (snd (propagate_tags self w))) = writes w \<and>
          prov (snd (snd (propagate_tags self w))) = prov w) \<and>
         (volume_parent instances volume = None \<longrightarrow>
            tag_volume self volume instances w = (Inl KeyError, w)) \<and>
         (fmlookup volumes (s_volume_id snapshot) = None \<longrightarrow>
            tag_snapshot self snapshot volumes w = (Inl KeyError, w))"
proof -
  have v: "volume_parent instances volume \<noteq> None \<longrightarrow>
            fst (tag_volume self volume instances w) = Inr True"
    using assms by (auto simp: tag_volume_eq Let_def)
  have s: "fmlookup volumes (s_volume_id snapshot) \<noteq> None \<longrightarrow>
            fst (tag_snapshot self snapshot volumes w) = Inr True"
    using assms by (auto simp: tag_snapshot_eq Let_def)
  have vn: "volume_parent instances volume = None \<longrightarrow>
            tag_volume self volume instances w = (Inl KeyError, w)"
    by (simp add: tag_volume_no_parent)
  have sn: "fmlookup volumes (s_volume_id snapshot) = None \<longrightarrow>
            tag_snapshot self snapshot volumes w = (Inl KeyError, w)"
    by (simp add: tag_snapshot_no_parent)
  have p: "writes (snd (snd (propagate_tags self w))) = writes w \<and>
          prov (snd (snd (propagate_tags self w))) = prov w"
  proof -
    let ?first = "if \<not> novolumes self then tag_volumes self w else (Inr None, self, w)"
    obtain r self1 w1 where t: "?first = (r, self1, w1)"
      by (cases ?first)
    have q: "writes w1 = writes w \<and> prov w1 = prov w"
      using tag_volumes_dryrun [OF assms, of w] t by (auto split: if_splits)
    have "self1\<lparr>volumes_to_tag := []\<rparr> = self\<lparr>volumes_to_tag := []\<rparr>"
      using t list_volumes_self [where self = self and w = w and l = "[]"]
      by (auto simp: tag_volumes_def Let_def split: prod.splits if_splits sum.splits)
    then have "dryrun (self1\<lparr>volumes_to_tag := []\<rparr>) = dryrun (self\<lparr>volumes_to_tag := []\<rparr>)"
      by simp
    then have d: "dryrun self1" using assms by simp
    obtain r2 w2 where s2: "tag_snapshots self1 w1 = (r2, w2)"
      by (cases "tag_snapshots self1 w1")
    from tag_snapshots_dryrun [OF d, of w1] s2 q
    have q2: "writes w2 = writes w \<and> prov w2 = prov w" by simp
    have "propagate_tags self w =
        (case r of Inl e \<Rightarrow> (Inl e, self1, w1)
         | Inr x \<Rightarrow> if \<not> nosnapshots self1
             then (case r2 of Inl e \<Rightarrow> (Inl e, self1, w2) | Inr y \<Rightarrow> (Inr (), self1, w2))
             else (Inr (), self1, w1))"
      unfolding propagate_tags_def t by (simp add: s2 split: sum.splits)
    then show ?thesis
      using q q2 by (simp split: sum.splits)
  qed
  show ?thesis
    using tag_volume_dryrun [OF assms] tag_snapshot_dryrun [OF assms] v s p vn sn by blast
qed

theorem dryrun_never_writes_witness:
  "dryrun (ex_monkey\<lparr>dryrun := True\<rparr>) \<and>
   volume_parent ex_instances ex_volume \<noteq> None \<and>
   fmlookup ex_volumes (s_volume_id ex_snapshot) \<noteq> None \<and>
   tag_volume (ex_monkey\<lparr>dryrun := True\<rparr>) ex_volume ex_instances ex_world =
     (Inr True, snd (tag_volume (ex_monkey\<lparr>dryrun := True\<rparr>) ex_volume ex_instances ex_world)) \<and>
   fst (tag_snapshot (ex_monkey\<lparr>dryrun := True\<rparr>) ex_snapshot ex_volumes ex_world) = Inr True \<and>
   writes (snd (tag_volume (ex_monkey\<lparr>dryrun := True\<rparr>) ex_volume ex_instances ex_world)) = [] \<and>
   writes (snd (tag_snapshot (ex_monkey\<lparr>dryrun := True\<rparr>) ex_snapshot ex_volumes ex_world)) = [] \<and>
   writes (snd (snd (propagate_tags (ex_monkey\<lparr>dryrun := True\<rparr>) ex_world))) = [] \<and>
   prov (snd (snd (propagate_tags (ex_monkey\<lparr>dryrun := True\<rparr>) ex_world))) = ex_prov \<and>
   volume_parent fmempty ex_volume = None \<and>
   fmlookup ex_volumes (s_volume_id ex_orphan_snapshot) = None \<and>
   tag_volume (ex_monkey\<lparr>dryrun := True\<rparr>) ex_volume fmempty ex_world = (Inl KeyError, ex_world) \<and>
   tag_snapshot (ex_monkey\<lparr>dryrun := True\<rparr>) ex_orphan_snapshot ex_volumes ex_world =
     (Inl KeyError, ex_world)"
proof -
  have d: "dryrun (ex_monkey\<lparr>dryrun := True\<rparr>)" by simp
  have p: "volume_parent ex_instances ex_volume \<noteq> None"
    by (simp add: volume_parent_def ex_instances_def ex_volume_def if_truthy_def truthy_def)
  have q: "fmlookup ex_volumes (s_volume_id ex_snapshot) \<noteq> None"
    by (simp add: ex_volumes_def ex_snapshot_def)
  have pn: "volume_parent fmempty ex_volume = None"
    by (simp add: volume_parent_def ex_volume_def if_truthy_def truthy_def)
  have qn: "fmlookup ex_volumes (s_volume_id ex_orphan_snapshot) = None"
    by (simp add: ex_volumes_def ex_orphan_snapshot_def)
  have w: "writes ex_world = []" "prov ex_world = ex_prov" by (simp_all add: ex_world_def)
  from dryrun_never_writes [OF d, of ex_volume ex_instances ex_world ex_snapshot ex_volumes]
    dryrun_never_writes [OF d, of ex_volume fmempty ex_world ex_orphan_snapshot ex_volumes]
  show ?thesis
    using d p q pn qn w by (simp add: prod_eq_iff)
qed

text \<open>
  The claim as the spec words it (\<^verbatim>\<open>tag_snapshot\<close> returns success for every resource in a
  dry run) fails for a snapshot whose volume is not in the parent mapping; a dry run over
  an account holding one such snapshot ends in \<^verbatim>\<open>KeyError\<close>.
\<close>

theorem dryrun_success_counterexample:
  "dryrun (ex_monkey\<lparr>dryrun := True\<rparr>) \<and>
   fst (tag_snapshot (ex_monkey\<lparr>dryrun := True\<rparr>) ex_orphan_snapshot ex_volumes ex_world) \<noteq> Inr True \<and>
   fst (tag_snapshot (ex_monkey\<lparr>dryrun := True\<rparr>) ex_orphan_snapshot ex_volumes ex_world) = Inl KeyError \<and>
   fst (propagate_tags (ex_monkey\<lparr>dryrun := True\<rparr>) ex_orphan_world) = Inl KeyError"
proof -
  have a: "fst (tag_snapshot (ex_monkey\<lparr>dryrun := True\<rparr>) ex_orphan_snapshot ex_volumes ex_world) =
      Inl KeyError"
    by (simp add: tag_snapshot_def ex_volumes_def ex_orphan_snapshot_def)
  have b: "fst (propagate_tags (ex_monkey\<lparr>dryrun := True\<rparr>) ex_orphan_world) = Inl KeyError"
    by code_simp
  show ?thesis using a b by simp
qed

section \<open>Append mode\<close>

lemma set_resource_tags_alias:
  "set_resource_tags resource (r_tags resource) w =
     (if r_tagged resource then (Inr (), w)
      else (Inl (GraffitiMonkeyException ''Resource is not an instance of TaggedEC2Object''), w))"
  by (simp add: set_resource_tags_def delta_tags_self)

lemma tag_volume_append:
  assumes "append self" and "volume_parent instances volume = Some inst"
  shows "snd (tag_volume self volume instances w) =
     (if dryrun self
      then log_msg INFO ''DRYRUN: Volume %s would have been tagged %s''
             [S (v_id volume), D (heap (volume_prepared self volume (i_tags inst) w) (v_tags volume))]
             (volume_prepared self volume (i_tags inst) w)
      else volume_prepared self volume (i_tags inst) w)"
proof -
  have acc: "accumulator self (v_tags volume) w = r_tags (volume_resource volume)"
    using assms(1) by (simp add: accumulator_def volume_resource_def)
  show ?thesis
    unfolding tag_volume_eq [OF assms(2)] Let_def acc set_resource_tags_alias
    by (simp add: volume_resource_def)
qed

lemma tag_snapshot_append:
  assumes "append self" and "fmlookup volumes (s_volume_id snapshot) = Some vol"
  shows "snd (tag_snapshot self snapshot volumes w) =
     (if dryrun self
      then log_msg INFO ''DRYRUN: Snapshot %s would have been tagged %s''
             [S (s_id snapshot), D (heap (snapshot_prepared self snapshot (v_tags vol) w) (s_tags snapshot))]
             (snapshot_prepared self snapshot (v_tags vol) w)
      else snapshot_prepared self snapshot (v_tags vol) w)"
proof -
  have acc: "accumulator self (s_tags snapshot) w = r_tags (snapshot_resource snapshot)"
    using assms(1) by (simp add: accumulator_def snapshot_resource_def)
  show ?thesis
    unfolding tag_snapshot_eq [OF assms(2)] Let_def acc set_resource_tags_alias
    by (simp add: snapshot_resource_def)
qed

lemma fmlookup_volume_tags_to_set:
  "fmlookup (volume_tags_to_set self volume it base) k =
     (if k = ''device'' then Some (if_truthy (device (v_attach_data volume)))
      else if k = ''instance_id'' then Some (if_truthy (instance_id (v_attach_data volume)))
      else if k \<in> set (instance_tags_to_propagate self) \<and> k |\<in>| fmdom it then fmlookup it k
      else fmlookup base k)"
  by (simp add: volume_tags_to_set_def fmlookup_copy_tags)

text \<open>
  Claim C9. In append mode \<^verbatim>\<open>tags_to_set\<close> is the resource's own tag dictionary, not a copy.
  For a volume whose parent is in the mapping, \<^verbatim>\<open>tag_volume\<close> leaves in the volume object's
  own dictionary the keys \<^verbatim>\<open>device\<close> and \<^verbatim>\<open>instance_id\<close> and every allowlisted tag of the
  instance, over the tags the volume had, and issues no write call; this holds with and
  without dryrun. \<^verbatim>\<open>tag_snapshot\<close> does the same to a snapshot object with the allowlisted
  tags of its volume.
\<close>

theorem append_mutates_resource_tags:
  assumes "append self"
    and "volume_parent instances volume = Some inst"
    and "v_tags volume < next_ref w"
    and "fmlookup volumes (s_volume_id snapshot) = Some vol"
    and "s_tags snapshot < next_ref w"
    and "v_tags vol < next_ref w"
  shows "(\<forall>k. fmlookup (heap (snd (tag_volume self volume instances w)) (v_tags volume)) k =
            (if k = ''device'' then Some (if_truthy (device (v_attach_data volume)))
             else if k = ''instance_id'' then Some (if_truthy (instance_id (v_attach_data volume)))
             else if k \<in> set (instance_tags_to_propagate self) \<and> k |\<in>| fmdom (i_tags inst)
             then fmlookup (i_tags inst) k
             else fmlookup (heap w (v_tags volume)) k)) \<and>
         writes (snd (tag_volume self volume instances w)) = writes w \<and>
         (\<forall>k. fmlookup (heap (snd (tag_snapshot self snapshot volumes w)) (s_tags snapshot)) k =
            (if k \<in> set (volume_tags_to_propagate self) \<and> k |\<in>| fmdom (heap w (v_tags vol))
             then fmlookup (heap w (v_tags vol)) k
             else fmlookup (heap w (s_tags snapshot)) k)) \<and>
         writes (snd (tag_snapshot self snapshot volumes w)) = writes w"
proof -
  have v: "heap (snd (tag_volume self volume instances w)) (v_tags volume) =
      volume_tags_to_set self volume (i_tags inst) (heap w (v_tags volume))"
    using assms(1,3)
    by (simp add: tag_volume_append [OF assms(1,2)] volume_prepared_def accumulator_def Let_def)
  have s: "heap (snd (tag_snapshot self snapshot volumes w)) (s_tags snapshot) =
      copy_tags (heap w (v_tags vol)) (volume_tags_to_propagate self) (heap w (s_tags snapshot))"
    using assms(1,5,6)
    by (simp add: tag_snapshot_append [OF assms(1,4)] snapshot_prepared_def accumulator_def Let_def)
  have wv: "writes (snd (tag_volume self volume instances w)) = writes w"
    by (simp add: tag_volume_append [OF assms(1,2)])
  have ws: "writes (snd (tag_snapshot self snapshot volumes w)) = writes w"
    by (simp add: tag_snapshot_append [OF assms(1,4)])
  show ?thesis
    unfolding v s wv ws by (simp add: fmlookup_volume_tags_to_set fmlookup_copy_tags)
qed

theorem append_mutates_resource_tags_witness:
  "append (ex_monkey\<lparr>append := True, dryrun := True\<rparr>) \<and>
   volume_parent ex_instances ex_volume = Some \<lparr>i_id = ''i-1'', i_tags = fmupd ''env'' (Some ''prod'') fmempty\<rparr> \<and>
   v_tags ex_volume < next_ref ex_world \<and>
   fmlookup ex_volumes (s_volume_id ex_snapshot) = Some ex_parent_volume \<and>
   s_tags ex_snapshot < next_ref ex_world \<and>
   v_tags ex_parent_volume < next_ref ex_world \<and>
   fmlookup (heap ex_world (v_tags ex_volume)) ''instance_id'' = None \<and>
   fmlookup (heap (snd (tag_volume (ex_monkey\<lparr>append := True, dryrun := True\<rparr>) ex_volume ex_instances ex_world))
      (v_tags ex_volume)) ''instance_id'' = Some (Some ''i-1'') \<and>
   fmlookup (heap (snd (tag_volume (ex_monkey\<lparr>append := True, dryrun := True\<rparr>) ex_volume ex_instances ex_world))
      (v_tags ex_volume)) ''env'' = Some (Some ''prod'') \<and>
   fmlookup (heap (snd (tag_volume (ex_monkey\<lparr>append := True, dryrun := True\<rparr>) ex_volume ex_instances ex_world))
      (v_tags ex_volume)) ''x'' = Some (Some ''y'') \<and>
   writes (snd (tag_volume (ex_monkey\<lparr>append := True, dryrun := True\<rparr>) ex_volume ex_instances ex_world)) = [] \<and>
   fmlookup (heap (snd (tag_snapshot (ex_monkey\<lparr>append := True, dryrun := True\<rparr>) ex_snapshot ex_volumes ex_world))
      (s_tags ex_snapshot)) ''env'' = Some (Some ''prod'')"
proof -
  let ?m = "ex_monkey\<lparr>append := True, dryrun := True\<rparr>"
  have a: "append ?m" by simp
  have p: "volume_parent ex_instances ex_volume =
      Some \<lparr>i_id = ''i-1'', i_tags = fmupd ''env'' (Some ''prod'') fmempty\<rparr>"
    by (simp add: volume_parent_def ex_instances_def ex_volume_def if_truthy_def truthy_def)
  have r: "v_tags ex_volume < next_ref ex_world" by (simp add: ex_volume_def ex_world_def)
  have q: "fmlookup ex_volumes (s_volume_id ex_snapshot) = Some ex_parent_volume"
    by (simp add: ex_volumes_def ex_snapshot_def)
  have r2: "s_tags ex_snapshot < next_ref ex_world" by (simp add: ex_snapshot_def ex_world_def)
  have r3: "v_tags ex_parent_volume < next_ref ex_world"
    by (simp add: ex_parent_volume_def ex_world_def)
  have names: "instance_tags_to_propagate ?m = [''env'']" "volume_tags_to_propagate ?m = [''env'']"
    by (simp_all add: ex_monkey_def)
  have h: "heap ex_world (v_tags ex_volume) = fmupd ''x'' (Some ''y'') fmempty"
    "heap ex_world (v_tags ex_parent_volume) = fmupd ''env'' (Some ''prod'') fmempty"
    "heap ex_world (s_tags ex_snapshot) = fmempty"
    "writes ex_world = []"
    by (simp_all add: ex_world_def ex_volume_def ex_parent_volume_def ex_snapshot_def)
  have att: "if_truthy (instance_id (v_attach_data ex_volume)) = Some ''i-1''"
    by (simp add: ex_volume_def if_truthy_def truthy_def)
  from append_mutates_resource_tags [OF a p r q r2 r3]
  show ?thesis
    using a p r q r2 r3 by (simp add: names h att)
qed

section \<open>Volumes that are not in use\<close>

lemma volumes_loop_skip:
  assumes "v_status volume \<noteq> ''in-use''"
  shows "volumes_loop self instances tot (volume # rest) counters w =
     volumes_loop self instances tot rest (fst counters + 1, snd counters + v_size volume)
       (w\<lparr>logged := logged w @
            [(INFO, ''Processing volume %d of %d total volumes'', [N (fst counters + 1), N tot]),
             (DEBUG,
              ''Skipping %s as it is not attached to an EC2 instance, so there is nothing to propagate'',
              [S (v_id volume)])]\<rparr>)"
  using assms by (simp add: Let_def log_msg_def)

lemma volumes_loop_all_skipped:
  assumes "\<forall>v \<in> set vols. v_status v \<noteq> ''in-use''"
  shows "fst (volumes_loop self instances tot vols counters w) =
           Inr (fst counters + length vols, snd counters + sum_list (map v_size vols)) \<and>
         (snd (volumes_loop self instances tot vols counters w))\<lparr>logged := logged w\<rparr> = w"
  using assms
proof (induction vols arbitrary: counters w)
  case Nil
  show ?case by simp
next
  case (Cons volume rest)
  let ?c = "(fst counters + 1, snd counters + v_size volume)"
  let ?w = "w\<lparr>logged := logged w @
            [(INFO, ''Processing volume %d of %d total volumes'', [N (fst counters + 1), N tot]),
             (DEBUG,
              ''Skipping %s as it is not attached to an EC2 instance, so there is nothing to propagate'',
              [S (v_id volume)])]\<rparr>"
  from Cons.prems have st: "v_status volume \<noteq> ''in-use''"
    and rest: "\<forall>v \<in> set rest. v_status v \<noteq> ''in-use''"
    by simp_all
  have step: "volumes_loop self instances tot (volume # rest) counters w =
      volumes_loop self instances tot rest ?c ?w"
    by (rule volumes_loop_skip [OF st])
  from Cons.IH [OF rest, of ?c ?w]
  have r: "fst (volumes_loop self instances tot rest ?c ?w) =
        Inr (fst ?c + length rest, snd ?c + sum_list (map v_size rest))"
    and w: "(snd (volumes_loop self instances tot rest ?c ?w))\<lparr>logged := logged ?w\<rparr> = ?w"
    by simp_all
  have "(snd (volumes_loop self instances tot rest ?c ?w))\<lparr>logged := logged w\<rparr> =
      ((snd (volumes_loop self instances tot rest ?c ?w))\<lparr>logged := logged ?w\<rparr>)\<lparr>logged := logged w\<rparr>"
    by simp
  also have "\<dots> = ?w\<lparr>logged := logged w\<rparr>"
    by (simp only: w)
  also have "\<dots> = w" by simp
  finally show ?case
    unfolding step using r by simp
qed

text \<open>
  Claim C4. A volume whose status is not \<^verbatim>\<open>in-use\<close> (the status the provider gives a volume
  that is attached to an instance) is skipped by the loop of \<^verbatim>\<open>tag_volumes\<close>: its round
  counts the volume, logs two lines and goes on with the next volume. There is no lookup
  of the parent (so no \<^verbatim>\<open>KeyError\<close>), no change to any dictionary, no write call and no
  exception, whatever the tag configuration. A list of such volumes is walked to its end
  and leaves the world as it was apart from the log.
\<close>

theorem unattached_volume_skipped:
  assumes "v_status volume \<noteq> ''in-use''"
    and "\<forall>v \<in> set vols. v_status v \<noteq> ''in-use''"
  shows "volumes_loop self instances tot (volume # rest) counters w =
           volumes_loop self instances tot rest (fst counters + 1, snd counters + v_size volume)
             (w\<lparr>logged := logged w @
                [(INFO, ''Processing volume %d of %d total volumes'',
                  [N (fst counters + 1), N tot]),
                 (DEBUG,
                  ''Skipping %s as it is not attached to an EC2 instance, so there is nothing to propagate'',
                  [S (v_id volume)])]\<rparr>) \<and>
         fst (volumes_loop self instances tot vols counters w) =
           Inr (fst counters + length vols, snd counters + sum_list (map v_size vols)) \<and>
         (snd (volumes_loop self instances tot vols counters w))\<lparr>logged := logged w\<rparr> = w"
  using volumes_loop_skip [OF assms(1)] volumes_loop_all_skipped [OF assms(2)] by simp

theorem unattached_volume_skipped_witness:
  "v_status ex_idle_volume \<noteq> ''in-use'' \<and>
   volumes_loop ex_monkey fmempty 2 [ex_idle_volume, ex_volume] (0, 0) ex_world =
     volumes_loop ex_monkey fmempty 2 [ex_volume] (1, 4)
       (ex_world\<lparr>logged :=
          [(INFO, ''Processing volume %d of %d total volumes'', [N 1, N 2]),
           (DEBUG,
            ''Skipping %s as it is not attached to an EC2 instance, so there is nothing to propagate'',
            [S ''v-2''])]\<rparr>) \<and>
   fst (volumes_loop ex_monkey fmempty 1 [ex_idle_volume] (0, 0) ex_world) = Inr (1, 4) \<and>
   (snd (volumes_loop ex_monkey fmempty 1 [ex_idle_volume] (0, 0) ex_world))\<lparr>logged := []\<rparr> = ex_world"
proof -
  have a: "v_status ex_idle_volume \<noteq> ''in-use''" by (simp add: ex_idle_volume_def)
  have b: "\<forall>v \<in> set [ex_idle_volume]. v_status v \<noteq> ''in-use''" by (simp add: ex_idle_volume_def)
  have l: "logged ex_world = []" by (simp add: ex_world_def)
  have i: "v_id ex_idle_volume = ''v-2''" "v_size ex_idle_volume = 4" by (simp_all add: ex_idle_volume_def)
  from unattached_volume_skipped [OF a b, of ex_monkey fmempty 2 "[ex_volume]" "(0, 0)" ex_world]
    unattached_volume_skipped [OF a b, of ex_monkey fmempty 1 "[]" "(0, 0)" ex_world]
  show ?thesis
    using a b by (simp add: l i)
qed

section \<open>Replace mode\<close>

lemma add_tags_eq:
  "add_tags resource tags w =
     (case reply_at (prov w) (length (writes w)) of
        Rejected c \<Rightarrow> (Inl (EC2ResponseError c), w\<lparr>writes := writes w @ [(r_id resource, tags)]\<rparr>)
      | ServerFault c \<Rightarrow> (Inl (BotoServerError c), w\<lparr>writes := writes w @ [(r_id resource, tags)]\<rparr>)
      | Accepted \<Rightarrow>
          (Inr (),
           w\<lparr>writes := writes w @ [(r_id resource, tags)],
             prov := store_tags (r_kind resource) (r_id resource) tags (prov w),
             heap := (heap w)(r_tags resource := heap w (r_tags resource) ++\<^sub>f tags)\<rparr>))"
  by (simp add: add_tags_def next_reply_def Let_def split: reply.splits)

lemma volume_prepared_heap_replace:
  assumes "\<not> append self" and "v_tags volume < next_ref w"
  shows "heap (volume_prepared self volume it w) (v_tags volume) = heap w (v_tags volume)"
    and "heap (volume_prepared self volume it w) (next_ref w) = volume_tags_to_set self volume it fmempty"
  using assms by (simp_all add: volume_prepared_def accumulator_def Let_def)

lemma tag_volume_replace:
  assumes "\<not> append self" and "\<not> dryrun self"
    and "volume_parent instances volume = Some inst"
    and "v_tagged volume"
    and "v_tags volume < next_ref w"
  shows "tag_volume self volume instances w =
     (let w4 = volume_prepared self volume (i_tags inst) w;
          delta = delta_tags (heap w (v_tags volume))
                    (volume_tags_to_set self volume (i_tags inst) fmempty)
      in if delta = fmempty then (Inr True, w4)
         else (case reply_at (prov w) (length (writes w)) of
                 Rejected c \<Rightarrow>
                   (Inl (EC2ResponseError c), w4\<lparr>writes := writes w @ [(v_id volume, delta)]\<rparr>)
               | ServerFault c \<Rightarrow>
                   (Inl (BotoServerError c), w4\<lparr>writes := writes w @ [(v_id volume, delta)]\<rparr>)
               | Accepted \<Rightarrow>
                   (Inr True,
                    w4\<lparr>writes := writes w @ [(v_id volume, delta)],
                       prov := store_tags VolumeKind (v_id volume) delta (prov w),
                       heap := (heap w4)(v_tags volume := heap w (v_tags volume) ++\<^sub>f delta)\<rparr>)))"
proof -
  have acc: "accumulator self (v_tags volume) w = next_ref w"
    using assms(1) by (simp add: accumulator_def)
  show ?thesis
    unfolding tag_volume_eq [OF assms(3)] Let_def acc
    using assms(2,4)
    by (simp add: set_resource_tags_def add_tags_eq volume_resource_def Let_def
        volume_prepared_heap_replace [OF assms(1,5)] split: reply.splits)
qed

lemma snapshot_prepared_heap_replace:
  assumes "\<not> append self" and "s_tags snapshot < next_ref w" and "vt < next_ref w"
  shows "heap (snapshot_prepared self snapshot vt w) (s_tags snapshot) = heap w (s_tags snapshot)"
    and "heap (snapshot_prepared self snapshot vt w) (next_ref w) =
           copy_tags (heap w vt) (volume_tags_to_propagate self) fmempty"
    and "heap (snapshot_prepared self snapshot vt w) vt = heap w vt"
  using assms by (simp_all add: snapshot_prepared_def accumulator_def Let_def)

lemma tag_snapshot_replace:
  assumes "\<not> append self" and "\<not> dryrun self"
    and "fmlookup volumes (s_volume_id snapshot) = Some vol"
    and "s_tagged snapshot"
    and "s_tags snapshot < next_ref w"
    and "v_tags vol < next_ref w"
  shows "tag_snapshot self snapshot volumes w =
     (let w2 = snapshot_prepared self snapshot (v_tags vol) w;
          delta = delta_tags (heap w (s_tags snapshot))
                    (copy_tags (heap w (v_tags vol)) (volume_tags_to_propagate self) fmempty)
      in if delta = fmempty then (Inr True, w2)
         else (case reply_at (prov w) (length (writes w)) of
                 Rejected c \<Rightarrow>
                   (Inl (EC2ResponseError c), w2\<lparr>writes := writes w @ [(s_id snapshot, delta)]\<rparr>)
               | ServerFault c \<Rightarrow>
                   (Inl (BotoServerError c), w2\<lparr>writes := writes w @ [(s_id snapshot, delta)]\<rparr>)
               | Accepted \<Rightarrow>
                   (Inr True,
                    w2\<lparr>writes := writes w @ [(s_id snapshot, delta)],
                       prov := store_tags SnapshotKind (s_id snapshot) delta (prov w),
                       heap := (heap w2)(s_tags snapshot := heap w (s_tags snapshot) ++\<^sub>f delta)\<rparr>)))"
proof -
  have acc: "accumulator self (s_tags snapshot) w = next_ref w"
    using assms(1) by (simp add: accumulator_def)
  show ?thesis
    unfolding tag_snapshot_eq [OF assms(3)] Let_def acc
    using assms(2,4)
    by (simp add: set_resource_tags_def add_tags_eq snapshot_resource_def Let_def
        snapshot_prepared_heap_replace [OF assms(1,5,6)] split: reply.splits)
qed


section \<open>The retry loop against a scripted provider\<close>

text \<open>
  A tagging call that, in every world satisfying \<open>I\<close>, issues the one write \<open>x\<close> and succeeds
  or fails as the provider's reply to that write says; \<open>F\<close> is the world after a failed call,
  \<open>A\<close> the world after an accepted one.
\<close>

lemma attempt_loop_step:
  "attempt_loop tag what rid attempt code w =
     (if attempt < 5 then
        (case tag w of
           (Inr b, w1) \<Rightarrow> (Success, w1)
         | (Inl (EC2ResponseError c), w1) \<Rightarrow>
             (PermanentFailure,
              log_msg ERROR (''Encountered Error %s on '' @ what @ '' %s'') [S c, S rid] w1)
         | (Inl (BotoServerError c), w1) \<Rightarrow>
             attempt_loop tag what rid (Suc attempt) c
               (sleep attempt
                 (log_msg ERROR
                   (''Encountered Error %s on '' @ what @ '' %s, waiting %d seconds then retrying'')
                   [S c, S rid, N attempt] w1))
         | (Inl e, w1) \<Rightarrow> (Raised e, w1))
      else
        (ExhaustedFailure,
         log_msg ERROR
           (''Encountered Error %s on '' @ what @ '' %s, %d retries failed, continuing'')
           [S code, S rid, N (attempt - 1)] w))"
  by (rule attempt_loop.simps)

lemma attempt_loop_done:
  "\<not> attempt < 5 \<Longrightarrow>
   attempt_loop tag what rid attempt code w =
     (ExhaustedFailure,
      log_msg ERROR
        (''Encountered Error %s on '' @ what @ '' %s, %d retries failed, continuing'')
        [S code, S rid, N (attempt - 1)] w)"
  by (simp add: attempt_loop_step [of tag what rid attempt code w])

lemma attempt_loop_succeeds_after:
  assumes step: "\<And>w. I w \<Longrightarrow> tag w =
        (case reply_at (prov w) (length (writes w)) of
           Rejected c \<Rightarrow> (Inl (EC2ResponseError c), F w)
         | ServerFault c \<Rightarrow> (Inl (BotoServerError c), F w)
         | Accepted \<Rightarrow> (Inr True, A w))"
    and F: "\<And>w. I w \<Longrightarrow> writes (F w) = writes w @ [x] \<and> sleeps (F w) = sleeps w \<and> prov (F w) = prov w"
    and FI: "\<And>w n l f a. I w \<Longrightarrow> I (sleep n (log_msg l f a (F w)))"
    and A: "\<And>w. I w \<Longrightarrow> writes (A w) = writes w @ [x] \<and> sleeps (A w) = sleeps w"
  shows "I w \<Longrightarrow> attempt + k < 5 \<Longrightarrow>
     (\<forall>j<k. \<exists>c. reply_at (prov w) (length (writes w) + j) = ServerFault c) \<Longrightarrow>
     reply_at (prov w) (length (writes w) + k) = Accepted \<Longrightarrow>
     fst (attempt_loop tag what rid attempt code w) = Success \<and>
     writes (snd (attempt_loop tag what rid attempt code w)) = writes w @ replicate (Suc k) x \<and>
     sleeps (snd (attempt_loop tag what rid attempt code w)) = sleeps w @ [attempt..<attempt + k]"
proof (induction k arbitrary: attempt code w)
  case 0
  then show ?case
    by (simp add: attempt_loop_step [of tag what rid attempt code w] step A)
next
  case (Suc k)
  from Suc.prems(3) obtain c where c: "reply_at (prov w) (length (writes w)) = ServerFault c"
    by (metis add.right_neutral zero_less_Suc)
  let ?w' = "sleep attempt
      (log_msg ERROR
         (''Encountered Error %s on '' @ what @ '' %s, waiting %d seconds then retrying'')
         [S c, S rid, N attempt] (F w))"
  have eq: "attempt_loop tag what rid attempt code w = attempt_loop tag what rid (Suc attempt) c ?w'"
    using Suc.prems(1,2) by (simp add: attempt_loop_step [of tag what rid attempt code w] step c)
  have I': "I ?w'" by (rule FI [OF Suc.prems(1)])
  have fr: "writes ?w' = writes w @ [x]" "sleeps ?w' = sleeps w @ [attempt]" "prov ?w' = prov w"
    using F [OF Suc.prems(1)] by simp_all
  have faults: "\<forall>j<k. \<exists>c. reply_at (prov ?w') (length (writes ?w') + j) = ServerFault c"
  proof (intro allI impI)
    fix j assume "j < k"
    then have "Suc j < Suc k" by simp
    with Suc.prems(3) obtain c' where
      "reply_at (prov w) (length (writes w) + Suc j) = ServerFault c'" by blast
    then show "\<exists>c. reply_at (prov ?w') (length (writes ?w') + j) = ServerFault c"
      using F [OF Suc.prems(1)] by simp
  qed
  have acc: "reply_at (prov ?w') (length (writes ?w') + k) = Accepted"
    using Suc.prems(4) F [OF Suc.prems(1)] by simp
  from Suc.prems(2) have lt: "Suc attempt + k < 5" by simp
  from Suc.IH [OF I' lt faults acc, of c]
  show ?case
    unfolding eq fr using Suc.prems(2)
    by (simp add: upt_rec [of attempt] replicate_app_Cons_same)
qed

lemma attempt_loop_exhausted:
  assumes step: "\<And>w. I w \<Longrightarrow> tag w =
        (case reply_at (prov w) (length (writes w)) of
           Rejected c \<Rightarrow> (Inl (EC2ResponseError c), F w)
         | ServerFault c \<Rightarrow> (Inl (BotoServerError c), F w)
         | Accepted \<Rightarrow> (Inr True, A w))"
    and F: "\<And>w. I w \<Longrightarrow> writes (F w) = writes w @ [x] \<and> sleeps (F w) = sleeps w \<and> prov (F w) = prov w"
    and FI: "\<And>w n l f a. I w \<Longrightarrow> I (sleep n (log_msg l f a (F w)))"
  shows "I w \<Longrightarrow> attempt + m = 5 \<Longrightarrow>
     (\<forall>j<m. \<exists>c. reply_at (prov w) (length (writes w) + j) = ServerFault c) \<Longrightarrow>
     fst (attempt_loop tag what rid attempt code w) = ExhaustedFailure \<and>
     writes (snd (attempt_loop tag what rid attempt code w)) = writes w @ replicate m x \<and>
     sleeps (snd (attempt_loop tag what rid attempt code w)) = sleeps w @ [attempt..<5]"
proof (induction m arbitrary: attempt code w)
  case 0
  then have five: "attempt = 5" by simp
  show ?case
    unfolding five by (simp add: attempt_loop_step [of tag what rid 5 code w])
next
  case (Suc m)
  from Suc.prems(3) obtain c where c: "reply_at (prov w) (length (writes w)) = ServerFault c"
    by (metis add.right_neutral zero_less_Suc)
  let ?w' = "sleep attempt
      (log_msg ERROR
         (''Encountered Error %s on '' @ what @ '' %s, waiting %d seconds then retrying'')
         [S c, S rid, N attempt] (F w))"
  from Suc.prems(2) have lt: "attempt < 5" by simp
  have eq: "attempt_loop tag what rid attempt code w = attempt_loop tag what rid (Suc attempt) c ?w'"
    using Suc.prems(1) lt by (simp add: attempt_loop_step [of tag what rid attempt code w] step c)
  have I': "I ?w'" by (rule FI [OF Suc.prems(1)])
  have fr: "writes ?w' = writes w @ [x]" "sleeps ?w' = sleeps w @ [attempt]" "prov ?w' = prov w"
    using F [OF Suc.prems(1)] by simp_all
  have faults: "\<forall>j<m. \<exists>c. reply_at (prov ?w') (length (writes ?w') + j) = ServerFault c"
  proof (intro allI impI)
    fix j assume "j < m"
    then have "Suc j < Suc m" by simp
    with Suc.prems(3) obtain c' where
      "reply_at (prov w) (length (writes w) + Suc j) = ServerFault c'" by blast
    then show "\<exists>c. reply_at (prov ?w') (length (writes ?w') + j) = ServerFault c"
      using F [OF Suc.prems(1)] by simp
  qed
  from Suc.prems(2) have e: "Suc attempt + m = 5" by simp
  from Suc.IH [OF I' e faults, of c]
  show ?case
    unfolding eq fr using lt
    by (simp add: upt_rec [of attempt] replicate_app_Cons_same)
qed

lemma attempt_loop_rejected:
  assumes step: "\<And>w. I w \<Longrightarrow> tag w =
        (case reply_at (prov w) (length (writes w)) of
           Rejected c \<Rightarrow> (Inl (EC2ResponseError c), F w)
         | ServerFault c \<Rightarrow> (Inl (BotoServerError c), F w)
         | Accepted \<Rightarrow> (Inr True, A w))"
    and F: "\<And>w. I w \<Longrightarrow> writes (F w) = writes w @ [x] \<and> sleeps (F w) = sleeps w \<and> prov (F w) = prov w"
  shows "I w \<Longrightarrow> reply_at (prov w) (length (writes w)) = Rejected c \<Longrightarrow>
     fst (attempt_loop tag what rid 0 code w) = PermanentFailure \<and>
     writes (snd (attempt_loop tag what rid 0 code w)) = writes w @ [x] \<and>
     sleeps (snd (attempt_loop tag what rid 0 code w)) = sleeps w"
  using F [of w] by (simp add: attempt_loop_step [of tag what rid 0 code w] step)

lemma set_resource_tags_sleeps [simp]:
  "sleeps (snd (set_resource_tags resource tags w)) = sleeps w"
  by (simp add: set_resource_tags_def add_tags_eq Let_def split: reply.splits)

lemma tag_volume_sleeps: "sleeps (snd (tag_volume self volume instances w)) = sleeps w"
proof (cases "volume_parent instances volume")
  case None
  then show ?thesis by (simp add: tag_volume_no_parent)
next
  case (Some inst)
  obtain r w5 where s: "set_resource_tags (volume_resource volume)
      (accumulator self (v_tags volume) w) (volume_prepared self volume (i_tags inst) w) = (r, w5)"
    by (cases "set_resource_tags (volume_resource volume)
      (accumulator self (v_tags volume) w) (volume_prepared self volume (i_tags inst) w)")
  from set_resource_tags_sleeps [of "volume_resource volume" "accumulator self (v_tags volume) w"
      "volume_prepared self volume (i_tags inst) w"] s
  have "sleeps w5 = sleeps w" by simp
  then show ?thesis
    by (simp add: tag_volume_eq [OF Some] Let_def s split: sum.splits)
qed

lemma tag_snapshot_sleeps: "sleeps (snd (tag_snapshot self snapshot volumes w)) = sleeps w"
proof (cases "fmlookup volumes (s_volume_id snapshot)")
  case None
  then show ?thesis by (simp add: tag_snapshot_no_parent)
next
  case (Some vol)
  obtain r w5 where s: "set_resource_tags (snapshot_resource snapshot)
      (accumulator self (s_tags snapshot) w) (snapshot_prepared self snapshot (v_tags vol) w) = (r, w5)"
    by (cases "set_resource_tags (snapshot_resource snapshot)
      (accumulator self (s_tags snapshot) w) (snapshot_prepared self snapshot (v_tags vol) w)")
  from set_resource_tags_sleeps [of "snapshot_resource snapshot" "accumulator self (s_tags snapshot) w"
      "snapshot_prepared self snapshot (v_tags vol) w"] s
  have "sleeps w5 = sleeps w" by simp
  then show ?thesis
    by (simp add: tag_snapshot_eq [OF Some] Let_def s split: sum.splits)
qed

lemma attempt_loop_sleeps:
  assumes "\<And>w. sleeps (snd (tag w)) = sleeps w"
  shows "attempt \<le> 5 \<Longrightarrow>
     \<exists>n. attempt \<le> n \<and> n \<le> 5 \<and>
         sleeps (snd (attempt_loop tag what rid attempt code w)) = sleeps w @ [attempt..<n]"
  using assms
proof (induction tag what rid attempt code w rule: attempt_loop.induct)
  case (1 tag what rid attempt code w)
  show ?case
  proof (cases "attempt < 5")
    case False
    with "1.prems"(1) show ?thesis
      by (intro exI [of _ attempt]) (simp add: attempt_loop_done)
  next
    case True
    obtain r w1 where r: "tag w = (r, w1)" by (cases "tag w")
    from "1.prems"(2) [of w] r have sl: "sleeps w1 = sleeps w" by simp
    show ?thesis
    proof (cases r)
      case (Inr b)
      with True r sl show ?thesis
        by (intro exI [of _ attempt]) (simp add: attempt_loop_step [of tag what rid attempt code w])
    next
      case (Inl e)
      show ?thesis
      proof (cases e)
        case (BotoServerError c)
        let ?w' = "sleep attempt
          (log_msg ERROR
            (''Encountered Error %s on '' @ what @ '' %s, waiting %d seconds then retrying'')
            [S c, S rid, N attempt] w1)"
        from True have le: "Suc attempt \<le> 5" by simp
        from "1.IH" [OF True r [symmetric] Inl BotoServerError le "1.prems"(2)]
        obtain n where n: "Suc attempt \<le> n" "n \<le> 5"
          "sleeps (snd (attempt_loop tag what rid (Suc attempt) c ?w')) = sleeps ?w' @ [Suc attempt..<n]"
          by blast
        have "attempt_loop tag what rid attempt code w = attempt_loop tag what rid (Suc attempt) c ?w'"
          using True r Inl BotoServerError
          by (simp add: attempt_loop_step [of tag what rid attempt code w])
        with n sl show ?thesis
          by (intro exI [of _ n]) (simp add: upt_rec [of attempt])
      qed (use True r sl Inl in \<open>auto intro!: exI [of _ attempt]
            simp: attempt_loop_step [of tag what rid attempt code w]\<close>)
    qed
  qed
qed

lemma volume_retry_step:
  assumes nd: "\<not> dryrun self" and na: "\<not> append self"
    and parent: "volume_parent instances volume = Some inst"
    and tagged: "v_tagged volume"
    and d: "delta_tags cur (volume_tags_to_set self volume (i_tags inst) fmempty) \<noteq> fmempty"
  shows "v_tags volume < next_ref w' \<and> heap w' (v_tags volume) = cur \<Longrightarrow>
     tag_volume self volume instances w' =
       (case reply_at (prov w') (length (writes w')) of
          Rejected c \<Rightarrow>
            (Inl (EC2ResponseError c),
             (volume_prepared self volume (i_tags inst) w')
               \<lparr>writes := writes w' @
                  [(v_id volume,
                    delta_tags cur (volume_tags_to_set self volume (i_tags inst) fmempty))]\<rparr>)
        | ServerFault c \<Rightarrow>
            (Inl (BotoServerError c),
             (volume_prepared self volume (i_tags inst) w')
               \<lparr>writes := writes w' @
                  [(v_id volume,
                    delta_tags cur (volume_tags_to_set self volume (i_tags inst) fmempty))]\<rparr>)
        | Accepted \<Rightarrow>
            (Inr True,
             (volume_prepared self volume (i_tags inst) w')
               \<lparr>writes := writes w' @
                  [(v_id volume,
                    delta_tags cur (volume_tags_to_set self volume (i_tags inst) fmempty))],
                prov := store_tags VolumeKind (v_id volume)
                  (delta_tags cur (volume_tags_to_set self volume (i_tags inst) fmempty)) (prov w'),
                heap := (heap (volume_prepared self volume (i_tags inst) w'))
                  (v_tags volume := cur ++\<^sub>f
                     delta_tags cur (volume_tags_to_set self volume (i_tags inst) fmempty))\<rparr>))"
proof -
  assume I: "v_tags volume < next_ref w' \<and> heap w' (v_tags volume) = cur"
  then have lt: "v_tags volume < next_ref w'" and h: "heap w' (v_tags volume) = cur" by simp_all
  show ?thesis
    using d by (simp add: tag_volume_replace [OF na nd parent tagged lt] Let_def h split: reply.splits)
qed

lemma snapshot_retry_step:
  assumes nd: "\<not> dryrun self" and na: "\<not> append self"
    and parent: "fmlookup volumes (s_volume_id snapshot) = Some vol"
    and tagged: "s_tagged snapshot"
    and d: "delta_tags cur (copy_tags src (volume_tags_to_propagate self) fmempty) \<noteq> fmempty"
  shows "s_tags snapshot < next_ref w' \<and> v_tags vol < next_ref w' \<and>
         heap w' (s_tags snapshot) = cur \<and> heap w' (v_tags vol) = src \<Longrightarrow>
     tag_snapshot self snapshot volumes w' =
       (case reply_at (prov w') (length (writes w')) of
          Rejected c \<Rightarrow>
            (Inl (EC2ResponseError c),
             (snapshot_prepared self snapshot (v_tags vol) w')
               \<lparr>writes := writes w' @
                  [(s_id snapshot,
                    delta_tags cur (copy_tags src (volume_tags_to_propagate self) fmempty))]\<rparr>)
        | ServerFault c \<Rightarrow>
            (Inl (BotoServerError c),
             (snapshot_prepared self snapshot (v_tags vol) w')
               \<lparr>writes := writes w' @
                  [(s_id snapshot,
                    delta_tags cur (copy_tags src (volume_tags_to_propagate self) fmempty))]\<rparr>)
        | Accepted \<Rightarrow>
            (Inr True,
             (snapshot_prepared self snapshot (v_tags vol) w')
               \<lparr>writes := writes w' @
                  [(s_id snapshot,
                    delta_tags cur (copy_tags src (volume_tags_to_propagate self) fmempty))],
                prov := store_tags SnapshotKind (s_id snapshot)
                  (delta_tags cur (copy_tags src (volume_tags_to_propagate self) fmempty)) (prov w'),
                heap := (heap (snapshot_prepared self snapshot (v_tags vol) w'))
                  (s_tags snapshot := cur ++\<^sub>f
                     delta_tags cur (copy_tags src (volume_tags_to_propagate self) fmempty))\<rparr>))"
proof -
  assume I: "s_tags snapshot < next_ref w' \<and> v_tags vol < next_ref w' \<and>
         heap w' (s_tags snapshot) = cur \<and> heap w' (v_tags vol) = src"
  then have lt: "s_tags snapshot < next_ref w'" and lt2: "v_tags vol < next_ref w'"
    and h: "heap w' (s_tags snapshot) = cur" "heap w' (v_tags vol) = src" by simp_all
  show ?thesis
    using d
    by (simp add: tag_snapshot_replace [OF na nd parent tagged lt lt2] Let_def h split: reply.splits)
qed


lemma volume_retry:
  assumes nd: "\<not> dryrun self" and na: "\<not> append self"
    and parent: "volume_parent instances volume = Some inst"
    and tagged: "v_tagged volume"
    and lt: "v_tags volume < next_ref w"
    and d: "volume_delta self volume (i_tags inst) w \<noteq> fmempty"
  shows "(k < 5 \<and> (\<forall>j<k. \<exists>c. reply_at (prov w) (length (writes w) + j) = ServerFault c) \<and>
          reply_at (prov w) (length (writes w) + k) = Accepted \<longrightarrow>
            fst (attempt_loop (tag_volume self volume instances) what rid 0 code w) = Success \<and>
            writes (snd (attempt_loop (tag_volume self volume instances) what rid 0 code w)) =
              writes w @ replicate (Suc k) (v_id volume, volume_delta self volume (i_tags inst) w) \<and>
            sleeps (snd (attempt_loop (tag_volume self volume instances) what rid 0 code w)) =
              sleeps w @ [0..<k]) \<and>
         ((\<forall>j<5. \<exists>c. reply_at (prov w) (length (writes w) + j) = ServerFault c) \<longrightarrow>
            fst (attempt_loop (tag_volume self volume instances) what rid 0 code w) = ExhaustedFailure \<and>
            writes (snd (attempt_loop (tag_volume self volume instances) what rid 0 code w)) =
              writes w @ replicate 5 (v_id volume, volume_delta self volume (i_tags inst) w) \<and>
            sleeps (snd (attempt_loop (tag_volume self volume instances) what rid 0 code w)) =
              sleeps w @ [0..<5]) \<and>
         (\<forall>c. reply_at (prov w) (length (writes w)) = Rejected c \<longrightarrow>
            fst (attempt_loop (tag_volume self volume instances) what rid 0 code w) = PermanentFailure \<and>
            writes (snd (attempt_loop (tag_volume self volume instances) what rid 0 code w)) =
              writes w @ [(v_id volume, volume_delta self volume (i_tags inst) w)] \<and>
            sleeps (snd (attempt_loop (tag_volume self volume instances) what rid 0 code w)) =
              sleeps w)"
proof -
  let ?cur = "heap w (v_tags volume)"
  let ?delta = "delta_tags ?cur (volume_tags_to_set self volume (i_tags inst) fmempty)"
  define I where "I = (\<lambda>w'::world. v_tags volume < next_ref w' \<and> heap w' (v_tags volume) = ?cur)"
  define F where "F = (\<lambda>w'. (volume_prepared self volume (i_tags inst) w')
               \<lparr>writes := writes w' @ [(v_id volume, ?delta)]\<rparr>)"
  define A where "A = (\<lambda>w'. (volume_prepared self volume (i_tags inst) w')
               \<lparr>writes := writes w' @ [(v_id volume, ?delta)],
                prov := store_tags VolumeKind (v_id volume) ?delta (prov w'),
                heap := (heap (volume_prepared self volume (i_tags inst) w'))
                  (v_tags volume := ?cur ++\<^sub>f ?delta)\<rparr>)"
  have d': "?delta \<noteq> fmempty" using d by (simp add: volume_delta_def)
  have vd: "volume_delta self volume (i_tags inst) w = ?delta" by (simp add: volume_delta_def)
  have step: "\<And>w'. I w' \<Longrightarrow> tag_volume self volume instances w' =
        (case reply_at (prov w') (length (writes w')) of
           Rejected c \<Rightarrow> (Inl (EC2ResponseError c), F w')
         | ServerFault c \<Rightarrow> (Inl (BotoServerError c), F w')
         | Accepted \<Rightarrow> (Inr True, A w'))"
    unfolding I_def F_def A_def by (rule volume_retry_step [OF nd na parent tagged d'])
  have F: "\<And>w'. I w' \<Longrightarrow> writes (F w') = writes w' @ [(v_id volume, ?delta)] \<and>
        sleeps (F w') = sleeps w' \<and> prov (F w') = prov w'"
    unfolding I_def F_def by simp
  have FI: "\<And>w' n l f a. I w' \<Longrightarrow> I (sleep n (log_msg l f a (F w')))"
    unfolding I_def F_def using na by (simp add: volume_prepared_heap_replace)
  have A: "\<And>w'. I w' \<Longrightarrow> writes (A w') = writes w' @ [(v_id volume, ?delta)] \<and>
        sleeps (A w') = sleeps w'"
    unfolding I_def A_def by simp
  have I0: "I w" using lt by (simp add: I_def)
  have one: "k < 5 \<and> (\<forall>j<k. \<exists>c. reply_at (prov w) (length (writes w) + j) = ServerFault c) \<and>
          reply_at (prov w) (length (writes w) + k) = Accepted \<longrightarrow>
            fst (attempt_loop (tag_volume self volume instances) what rid 0 code w) = Success \<and>
            writes (snd (attempt_loop (tag_volume self volume instances) what rid 0 code w)) =
              writes w @ replicate (Suc k) (v_id volume, ?delta) \<and>
            sleeps (snd (attempt_loop (tag_volume self volume instances) what rid 0 code w)) =
              sleeps w @ [0..<k]"
  proof (intro impI, elim conjE)
    assume k: "k < 5"
      and f: "\<forall>j<k. \<exists>c. reply_at (prov w) (length (writes w) + j) = ServerFault c"
      and a: "reply_at (prov w) (length (writes w) + k) = Accepted"
    from k have k': "0 + k < 5" by simp
    from attempt_loop_succeeds_after [where I = I and F = F and A = A and tag = "tag_volume self volume instances" and x = "(v_id volume, ?delta)"
          and w = w and attempt = 0 and k = k and what = what and rid = rid and code = code,
        OF step F FI A I0 k' f a]
    show "fst (attempt_loop (tag_volume self volume instances) what rid 0 code w) = Success \<and>
            writes (snd (attempt_loop (tag_volume self volume instances) what rid 0 code w)) =
              writes w @ replicate (Suc k) (v_id volume, ?delta) \<and>
            sleeps (snd (attempt_loop (tag_volume self volume instances) what rid 0 code w)) =
              sleeps w @ [0..<k]"
      by (simp only: add_0)
  qed
  have two: "(\<forall>j<5. \<exists>c. reply_at (prov w) (length (writes w) + j) = ServerFault c) \<longrightarrow>
            fst (attempt_loop (tag_volume self volume instances) what rid 0 code w) = ExhaustedFailure \<and>
            writes (snd (attempt_loop (tag_volume self volume instances) what rid 0 code w)) =
              writes w @ replicate 5 (v_id volume, ?delta) \<and>
            sleeps (snd (attempt_loop (tag_volume self volume instances) what rid 0 code w)) =
              sleeps w @ [0..<5]"
  proof
    assume f: "\<forall>j<5. \<exists>c. reply_at (prov w) (length (writes w) + j) = ServerFault c"
    have e: "0 + 5 = (5::nat)" by simp
    from attempt_loop_exhausted [where I = I and F = F and A = A and tag = "tag_volume self volume instances" and x = "(v_id volume, ?delta)"
          and w = w and attempt = 0 and m = 5 and what = what and rid = rid and code = code,
        OF step F FI I0 e f]
    show "fst (attempt_loop (tag_volume self volume instances) what rid 0 code w) = ExhaustedFailure \<and>
            writes (snd (attempt_loop (tag_volume self volume instances) what rid 0 code w)) =
              writes w @ replicate 5 (v_id volume, ?delta) \<and>
            sleeps (snd (attempt_loop (tag_volume self volume instances) what rid 0 code w)) =
              sleeps w @ [0..<5]"
      .
  qed
  have three: "\<forall>c. reply_at (prov w) (length (writes w)) = Rejected c \<longrightarrow>
            fst (attempt_loop (tag_volume self volume instances) what rid 0 code w) = PermanentFailure \<and>
            writes (snd (attempt_loop (tag_volume self volume instances) what rid 0 code w)) =
              writes w @ [(v_id volume, ?delta)] \<and>
            sleeps (snd (attempt_loop (tag_volume self volume instances) what rid 0 code w)) =
              sleeps w"
  proof (intro allI impI)
    fix c assume r: "reply_at (prov w) (length (writes w)) = Rejected c"
    from attempt_loop_rejected [where I = I and F = F and A = A and tag = "tag_volume self volume instances" and x = "(v_id volume, ?delta)"
          and w = w and c = c and what = what and rid = rid and code = code,
        OF step F I0 r]
    show "fst (attempt_loop (tag_volume self volume instances) what rid 0 code w) = PermanentFailure \<and>
            writes (snd (attempt_loop (tag_volume self volume instances) what rid 0 code w)) =
              writes w @ [(v_id volume, ?delta)] \<and>
            sleeps (snd (attempt_loop (tag_volume self volume instances) what rid 0 code w)) =
              sleeps w"
      .
  qed
  show ?thesis
    unfolding vd by (rule conjI [OF one conjI [OF two three]])
qed

lemma snapshot_retry:
  assumes nd: "\<not> dryrun self" and na: "\<not> append self"
    and parent: "fmlookup volumes (s_volume_id snapshot) = Some vol"
    and tagged: "s_tagged snapshot"
    and lt: "s_tags snapshot < next_ref w" and lt2: "v_tags vol < next_ref w"
    and d: "snapshot_delta self snapshot (v_tags vol) w \<noteq> fmempty"
  shows "(k < 5 \<and> (\<forall>j<k. \<exists>c. reply_at (prov w) (length (writes w) + j) = ServerFault c) \<and>
          reply_at (prov w) (length (writes w) + k) = Accepted \<longrightarrow>
            fst (attempt_loop (tag_snapshot self snapshot volumes) what rid 0 code w) = Success \<and>
            writes (snd (attempt_loop (tag_snapshot self snapshot volumes) what rid 0 code w)) =
              writes w @ replicate (Suc k) (s_id snapshot, snapshot_delta self snapshot (v_tags vol) w) \<and>
            sleeps (snd (attempt_loop (tag_snapshot self snapshot volumes) what rid 0 code w)) =
              sleeps w @ [0..<k]) \<and>
         ((\<forall>j<5. \<exists>c. reply_at (prov w) (length (writes w) + j) = ServerFault c) \<longrightarrow>
            fst (attempt_loop (tag_snapshot self snapshot volumes) what rid 0 code w) = ExhaustedFailure \<and>
            writes (snd (attempt_loop (tag_snapshot self snapshot volumes) what rid 0 code w)) =
              writes w @ replicate 5 (s_id snapshot, snapshot_delta self snapshot (v_tags vol) w) \<and>
            sleeps (snd (attempt_loop (tag_snapshot self snapshot volumes) what rid 0 code w)) =
              sleeps w @ [0..<5]) \<and>
         (\<forall>c. reply_at (prov w) (length (writes w)) = Rejected c \<longrightarrow>
            fst (attempt_loop (tag_snapshot self snapshot volumes) what rid 0 code w) = PermanentFailure \<and>
            writes (snd (attempt_loop (tag_snapshot self snapshot volumes) what rid 0 code w)) =
              writes w @ [(s_id snapshot, snapshot_delta self snapshot (v_tags vol) w)] \<and>
            sleeps (snd (attempt_loop (tag_snapshot self snapshot volumes) what rid 0 code w)) =
              sleeps w)"
proof -
  let ?cur = "heap w (s_tags snapshot)"
  let ?src = "heap w (v_tags vol)"
  let ?delta = "delta_tags ?cur (copy_tags ?src (volume_tags_to_propagate self) fmempty)"
  define I where "I = (\<lambda>w'::world. s_tags snapshot < next_ref w' \<and> v_tags vol < next_ref w' \<and>
         heap w' (s_tags snapshot) = ?cur \<and> heap w' (v_tags vol) = ?src)"
  define F where "F = (\<lambda>w'. (snapshot_prepared self snapshot (v_tags vol) w')
               \<lparr>writes := writes w' @ [(s_id snapshot, ?delta)]\<rparr>)"
  define A where "A = (\<lambda>w'. (snapshot_prepared self snapshot (v_tags vol) w')
               \<lparr>writes := writes w' @ [(s_id snapshot, ?delta)],
                prov := store_tags SnapshotKind (s_id snapshot) ?delta (prov w'),
                heap := (heap (snapshot_prepared self snapshot (v_tags vol) w'))
                  (s_tags snapshot := ?cur ++\<^sub>f ?delta)\<rparr>)"
  have d': "?delta \<noteq> fmempty" using d by (simp add: snapshot_delta_def)
  have vd: "snapshot_delta self snapshot (v_tags vol) w = ?delta" by (simp add: snapshot_delta_def)
  have step: "\<And>w'. I w' \<Longrightarrow> tag_snapshot self snapshot volumes w' =
        (case reply_at (prov w') (length (writes w')) of
           Rejected c \<Rightarrow> (Inl (EC2ResponseError c), F w')
         | ServerFault c \<Rightarrow> (Inl (BotoServerError c), F w')
         | Accepted \<Rightarrow> (Inr True, A w'))"
    unfolding I_def F_def A_def by (rule snapshot_retry_step [OF nd na parent tagged d'])
  have F: "\<And>w'. I w' \<Longrightarrow> writes (F w') = writes w' @ [(s_id snapshot, ?delta)] \<and>
        sleeps (F w') = sleeps w' \<and> prov (F w') = prov w'"
    unfolding I_def F_def by simp
  have FI: "\<And>w' n l f a. I w' \<Longrightarrow> I (sleep n (log_msg l f a (F w')))"
  proof -
    fix w' :: world and n l f a
    assume "I w'"
    then have all: "s_tags snapshot < next_ref w' \<and> v_tags vol < next_ref w' \<and>
         heap w' (s_tags snapshot) = ?cur \<and> heap w' (v_tags vol) = ?src"
      by (simp add: I_def)
    then have l1: "s_tags snapshot < next_ref w'" and l2: "v_tags vol < next_ref w'"
      and h1: "heap w' (s_tags snapshot) = ?cur" and h2: "heap w' (v_tags vol) = ?src"
      by blast+
    have "heap (snapshot_prepared self snapshot (v_tags vol) w') (s_tags snapshot) = ?cur"
      by (simp only: snapshot_prepared_heap_replace(1) [OF na l1 l2] h1)
    moreover have "heap (snapshot_prepared self snapshot (v_tags vol) w') (v_tags vol) = ?src"
      by (simp only: snapshot_prepared_heap_replace(3) [OF na l1 l2] h2)
    ultimately show "I (sleep n (log_msg l f a (F w')))"
      using l1 l2 by (simp add: I_def F_def)
  qed
  have A: "\<And>w'. I w' \<Longrightarrow> writes (A w') = writes w' @ [(s_id snapshot, ?delta)] \<and>
        sleeps (A w') = sleeps w'"
    unfolding I_def A_def by simp
  have I0: "I w" using lt lt2 by (simp add: I_def)
  have one: "k < 5 \<and> (\<forall>j<k. \<exists>c. reply_at (prov w) (length (writes w) + j) = ServerFault c) \<and>
          reply_at (prov w) (length (writes w) + k) = Accepted \<longrightarrow>
            fst (attempt_loop (tag_snapshot self snapshot volumes) what rid 0 code w) = Success \<and>
            writes (snd (attempt_loop (tag_snapshot self snapshot volumes) what rid 0 code w)) =
              writes w @ replicate (Suc k) (s_id snapshot, ?delta) \<and>
            sleeps (snd (attempt_loop (tag_snapshot self snapshot volumes) what rid 0 code w)) =
              sleeps w @ [0..<k]"
  proof (intro impI, elim conjE)
    assume k: "k < 5"
      and f: "\<forall>j<k. \<exists>c. reply_at (prov w) (length (writes w) + j) = ServerFault c"
      and a: "reply_at (prov w) (length (writes w) + k) = Accepted"
    from k have k': "0 + k < 5" by simp
    from attempt_loop_succeeds_after [where I = I and F = F and A = A and tag = "tag_snapshot self snapshot volumes" and x = "(s_id snapshot, ?delta)"
          and w = w and attempt = 0 and k = k and what = what and rid = rid and code = code,
        OF step F FI A I0 k' f a]
    show "fst (attempt_loop (tag_snapshot self snapshot volumes) what rid 0 code w) = Success \<and>
            writes (snd (attempt_loop (tag_snapshot self snapshot volumes) what rid 0 code w)) =
              writes w @ replicate (Suc k) (s_id snapshot, ?delta) \<and>
            sleeps (snd (attempt_loop (tag_snapshot self snapshot volumes) what rid 0 code w)) =
              sleeps w @ [0..<k]"
      by (simp only: add_0)
  qed
  have two: "(\<forall>j<5. \<exists>c. reply_at (prov w) (length (writes w) + j) = ServerFault c) \<longrightarrow>
            fst (attempt_loop (tag_snapshot self snapshot volumes) what rid 0 code w) = ExhaustedFailure \<and>
            writes (snd (attempt_loop (tag_snapshot self snapshot volumes) what rid 0 code w)) =
              writes w @ replicate 5 (s_id snapshot, ?delta) \<and>
            sleeps (snd (attempt_loop (tag_snapshot self snapshot volumes) what rid 0 code w)) =
              sleeps w @ [0..<5]"
  proof
    assume f: "\<forall>j<5. \<exists>c. reply_at (prov w) (length (writes w) + j) = ServerFault c"
    have e: "0 + 5 = (5::nat)" by simp
    from attempt_loop_exhausted [where I = I and F = F and A = A and tag = "tag_snapshot self snapshot volumes" and x = "(s_id snapshot, ?delta)"
          and w = w and attempt = 0 and m = 5 and what = what and rid = rid and code = code,
        OF step F FI I0 e f]
    show "fst (attempt_loop (tag_snapshot self snapshot volumes) what rid 0 code w) = ExhaustedFailure \<and>
            writes (snd (attempt_loop (tag_snapshot self snapshot volumes) what rid 0 code w)) =
              writes w @ replicate 5 (s_id snapshot, ?delta) \<and>
            sleeps (snd (attempt_loop (tag_snapshot self snapshot volumes) what rid 0 code w)) =
              sleeps w @ [0..<5]"
      .
  qed
  have three: "\<forall>c. reply_at (prov w) (length (writes w)) = Rejected c \<longrightarrow>
            fst (attempt_loop (tag_snapshot self snapshot volumes) what rid 0 code w) = PermanentFailure \<and>
            writes (snd (attempt_loop (tag_snapshot self snapshot volumes) what rid 0 code w)) =
              writes w @ [(s_id snapshot, ?delta)] \<and>
            sleeps (snd (attempt_loop (tag_snapshot self snapshot volumes) what rid 0 code w)) =
              sleeps w"
  proof (intro allI impI)
    fix c assume r: "reply_at (prov w) (length (writes w)) = Rejected c"
    from attempt_loop_rejected [where I = I and F = F and A = A and tag = "tag_snapshot self snapshot volumes" and x = "(s_id snapshot, ?delta)"
          and w = w and c = c and what = what and rid = rid and code = code,
        OF step F I0 r]
    show "fst (attempt_loop (tag_snapshot self snapshot volumes) what rid 0 code w) = PermanentFailure \<and>
            writes (snd (attempt_loop (tag_snapshot self snapshot volumes) what rid 0 code w)) =
              writes w @ [(s_id snapshot, ?delta)] \<and>
            sleeps (snd (attempt_loop (tag_snapshot self snapshot volumes) what rid 0 code w)) =
              sleeps w"
      .
  qed
  show ?thesis
    unfolding vd by (rule conjI [OF one conjI [OF two three]])
qed

text \<open>
  Claim C6. The retry loop around \<^verbatim>\<open>tag_volume\<close> and around \<^verbatim>\<open>tag_snapshot\<close>, for a resource
  that needs a write (replace mode, no dry run, parent in the mapping, a non-empty delta),
  so that each call of the tagging method is one write call and fails or succeeds as the
  provider answers that call:
  \<^item> if the provider answers the next \<open>k < 5\<close> write calls with a server fault and the one
    after with success, the loop ends in \<open>Success\<close> after \<open>k + 1\<close> calls and the \<open>k\<close>
    sleeps \<open>0, 1, \<dots>, k - 1\<close>;
  \<^item> if it answers the next five with a server fault, the loop ends in
    \<open>ExhaustedFailure\<close> after exactly five calls (and the sleeps \<open>0, 1, 2, 3, 4\<close>);
  \<^item> if it rejects the first, the loop ends in \<open>PermanentFailure\<close> after exactly one call
    and without sleeping.
  In every run of either loop, whatever the configuration and the provider, the sleeps
  are \<open>0, 1, \<dots>, n - 1\<close> for some \<open>n \<le> 5\<close>: the first retry waits zero seconds and the
  waits never decrease.
\<close>

theorem retry_loop_outcomes:
  assumes "\<not> dryrun self" and "\<not> append self"
    and "volume_parent instances volume = Some inst"
    and "v_tagged volume"
    and "v_tags volume < next_ref w"
    and "volume_delta self volume (i_tags inst) w \<noteq> fmempty"
    and "fmlookup volumes (s_volume_id snapshot) = Some vol"
    and "s_tagged snapshot"
    and "s_tags snapshot < next_ref w"
    and "v_tags vol < next_ref w"
    and "snapshot_delta self snapshot (v_tags vol) w \<noteq> fmempty"
  shows "(k < 5 \<and> (\<forall>j<k. \<exists>c. reply_at (prov w) (length (writes w) + j) = ServerFault c) \<and>
          reply_at (prov w) (length (writes w) + k) = Accepted \<longrightarrow>
            retried (attempt_loop (tag_volume self volume instances) ''volume'' (v_id volume) 0 [] w)
              w Success (Suc k) (v_id volume, volume_delta self volume (i_tags inst) w) [0..<k] \<and>
            retried (attempt_loop (tag_snapshot self snapshot volumes) ''snapshot'' (s_id snapshot) 0 [] w)
              w Success (Suc k) (s_id snapshot, snapshot_delta self snapshot (v_tags vol) w) [0..<k]) \<and>
         ((\<forall>j<5. \<exists>c. reply_at (prov w) (length (writes w) + j) = ServerFault c) \<longrightarrow>
            retried (attempt_loop (tag_volume self volume instances) ''volume'' (v_id volume) 0 [] w)
              w ExhaustedFailure 5 (v_id volume, volume_delta self volume (i_tags inst) w) [0..<5] \<and>
            retried (attempt_loop (tag_snapshot self snapshot volumes) ''snapshot'' (s_id snapshot) 0 [] w)
              w ExhaustedFailure 5 (s_id snapshot, snapshot_delta self snapshot (v_tags vol) w) [0..<5]) \<and>
         (\<forall>c. reply_at (prov w) (length (writes w)) = Rejected c \<longrightarrow>
            retried (attempt_loop (tag_volume self volume instances) ''volume'' (v_id volume) 0 [] w)
              w PermanentFailure 1 (v_id volume, volume_delta self volume (i_tags inst) w) [] \<and>
            retried (attempt_loop (tag_snapshot self snapshot volumes) ''snapshot'' (s_id snapshot) 0 [] w)
              w PermanentFailure 1 (s_id snapshot, snapshot_delta self snapshot (v_tags vol) w) []) \<and>
         (\<exists>n. n \<le> 5 \<and>
            sleeps (snd (attempt_loop (tag_volume self' volume' instances' ) ''volume'' rid 0 [] w')) =
              sleeps w' @ [0..<n]) \<and>
         (\<exists>n. n \<le> 5 \<and>
            sleeps (snd (attempt_loop (tag_snapshot self' snapshot' volumes') ''snapshot'' rid 0 [] w')) =
              sleeps w' @ [0..<n])"
proof -
  note v = volume_retry [OF assms(1,2,3,4,5,6), of _ "''volume''" "v_id volume" "[]"]
  note s = snapshot_retry [OF assms(1,2,7,8,9,10,11), of _ "''snapshot''" "s_id snapshot" "[]"]
  have sv: "\<exists>n. n \<le> 5 \<and>
      sleeps (snd (attempt_loop (tag_volume self' volume' instances') ''volume'' rid 0 [] w')) =
        sleeps w' @ [0..<n]"
    using attempt_loop_sleeps [of "tag_volume self' volume' instances'" 0 "''volume''" rid "[]" w']
    by (auto simp: tag_volume_sleeps)
  have ss: "\<exists>n. n \<le> 5 \<and>
      sleeps (snd (attempt_loop (tag_snapshot self' snapshot' volumes') ''snapshot'' rid 0 [] w')) =
        sleeps w' @ [0..<n]"
    using attempt_loop_sleeps [of "tag_snapshot self' snapshot' volumes'" 0 "''snapshot''" rid "[]" w']
    by (auto simp: tag_snapshot_sleeps)
  have one: "k < 5 \<and> (\<forall>j<k. \<exists>c. reply_at (prov w) (length (writes w) + j) = ServerFault c) \<and>
          reply_at (prov w) (length (writes w) + k) = Accepted \<longrightarrow>
            retried (attempt_loop (tag_volume self volume instances) ''volume'' (v_id volume) 0 [] w)
              w Success (Suc k) (v_id volume, volume_delta self volume (i_tags inst) w) [0..<k] \<and>
            retried (attempt_loop (tag_snapshot self snapshot volumes) ''snapshot'' (s_id snapshot) 0 [] w)
              w Success (Suc k) (s_id snapshot, snapshot_delta self snapshot (v_tags vol) w) [0..<k]"
    unfolding retried_def using v [of k, THEN conjunct1] s [of k, THEN conjunct1] by blast
  have two: "(\<forall>j<5. \<exists>c. reply_at (prov w) (length (writes w) + j) = ServerFault c) \<longrightarrow>
            retried (attempt_loop (tag_volume self volume instances) ''volume'' (v_id volume) 0 [] w)
              w ExhaustedFailure 5 (v_id volume, volume_delta self volume (i_tags inst) w) [0..<5] \<and>
            retried (attempt_loop (tag_snapshot self snapshot volumes) ''snapshot'' (s_id snapshot) 0 [] w)
              w ExhaustedFailure 5 (s_id snapshot, snapshot_delta self snapshot (v_tags vol) w) [0..<5]"
    unfolding retried_def
    using v [of 0, THEN conjunct2, THEN conjunct1] s [of 0, THEN conjunct2, THEN conjunct1] by blast
  have three: "\<forall>c. reply_at (prov w) (length (writes w)) = Rejected c \<longrightarrow>
            retried (attempt_loop (tag_volume self volume instances) ''volume'' (v_id volume) 0 [] w)
              w PermanentFailure 1 (v_id volume, volume_delta self volume (i_tags inst) w) [] \<and>
            retried (attempt_loop (tag_snapshot self snapshot volumes) ''snapshot'' (s_id snapshot) 0 [] w)
              w PermanentFailure 1 (s_id snapshot, snapshot_delta self snapshot (v_tags vol) w) []"
    unfolding retried_def
    using v [of 0, THEN conjunct2, THEN conjunct2] s [of 0, THEN conjunct2, THEN conjunct2]
    by simp
  show ?thesis
    by (rule conjI [OF one conjI [OF two conjI [OF three conjI [OF sv ss]]]])
qed

theorem retry_loop_outcomes_witness:
  "retried (attempt_loop (tag_volume ex_monkey ex_volume ex_instances) ''volume'' (v_id ex_volume) 0 []
              (ex_world_replying [ServerFault ''RequestLimitExceeded'', ServerFault ''InternalError'']))
     (ex_world_replying [ServerFault ''RequestLimitExceeded'', ServerFault ''InternalError''])
     Success 3
     (''v-1'', volume_delta ex_monkey ex_volume (fmupd ''env'' (Some ''prod'') fmempty) ex_world)
     [0, 1] \<and>
   retried (attempt_loop (tag_snapshot ex_monkey ex_snapshot ex_volumes) ''snapshot'' (s_id ex_snapshot) 0 []
              (ex_world_replying (replicate 5 (ServerFault ''InternalError''))))
     (ex_world_replying (replicate 5 (ServerFault ''InternalError'')))
     ExhaustedFailure 5
     (''s-1'', snapshot_delta ex_monkey ex_snapshot 1 ex_world)
     [0, 1, 2, 3, 4] \<and>
   retried (attempt_loop (tag_volume ex_monkey ex_volume ex_instances) ''volume'' (v_id ex_volume) 0 []
              (ex_world_replying [Rejected ''UnauthorizedOperation'']))
     (ex_world_replying [Rejected ''UnauthorizedOperation''])
     PermanentFailure 1
     (''v-1'', volume_delta ex_monkey ex_volume (fmupd ''env'' (Some ''prod'') fmempty) ex_world)
     []"
proof -
  let ?it = "fmupd ''env'' (Some ''prod'') fmempty :: dict"
  let ?inst = "\<lparr>i_id = ''i-1'', i_tags = ?it\<rparr>"
  have nd: "\<not> dryrun ex_monkey" and na: "\<not> append ex_monkey"
    by (simp_all add: ex_monkey_def)
  have p: "volume_parent ex_instances ex_volume = Some ?inst"
    by (simp add: volume_parent_def ex_instances_def ex_volume_def if_truthy_def truthy_def)
  have tg: "v_tagged ex_volume" "s_tagged ex_snapshot"
    by (simp_all add: ex_volume_def ex_snapshot_def)
  have q: "fmlookup ex_volumes (s_volume_id ex_snapshot) = Some ex_parent_volume"
    by (simp add: ex_volumes_def ex_snapshot_def)
  have hp: "heap (ex_world_replying rs) = heap ex_world" "next_ref (ex_world_replying rs) = 3"
    "writes (ex_world_replying rs) = []" "sleeps (ex_world_replying rs) = []"
    "replies (prov (ex_world_replying rs)) = rs" for rs
    by (simp_all add: ex_world_replying_def ex_world_def)
  have lt: "v_tags ex_volume < next_ref (ex_world_replying rs)"
    "s_tags ex_snapshot < next_ref (ex_world_replying rs)"
    "v_tags ex_parent_volume < next_ref (ex_world_replying rs)" for rs
    by (simp_all add: hp ex_volume_def ex_snapshot_def ex_parent_volume_def)
  have vd: "volume_delta ex_monkey ex_volume ?it (ex_world_replying rs) =
      volume_delta ex_monkey ex_volume ?it ex_world" for rs
    by (simp add: volume_delta_def hp)
  have sd: "snapshot_delta ex_monkey ex_snapshot (v_tags ex_parent_volume) (ex_world_replying rs) =
      snapshot_delta ex_monkey ex_snapshot 1 ex_world" for rs
    by (simp add: snapshot_delta_def hp ex_parent_volume_def)
  have vne: "volume_delta ex_monkey ex_volume ?it ex_world \<noteq> fmempty"
    by code_simp
  have sne: "snapshot_delta ex_monkey ex_snapshot 1 ex_world \<noteq> fmempty"
    by code_simp
  have ids: "v_id ex_volume = ''v-1''" "s_id ex_snapshot = ''s-1''"
    by (simp_all add: ex_volume_def ex_snapshot_def)
  have vne': "volume_delta ex_monkey ex_volume (i_tags ?inst) (ex_world_replying rs) \<noteq> fmempty" for rs
    using vne by (simp add: vd)
  have sne': "snapshot_delta ex_monkey ex_snapshot (v_tags ex_parent_volume) (ex_world_replying rs) \<noteq> fmempty" for rs
    using sne by (simp add: sd)
  let ?two = "[ServerFault ''RequestLimitExceeded'', ServerFault ''InternalError'']"
  let ?five = "replicate 5 (ServerFault ''InternalError'')"
  let ?rej = "[Rejected ''UnauthorizedOperation'']"
  have f2: "(2::nat) < 5 \<and>
      (\<forall>j<2. \<exists>c. reply_at (prov (ex_world_replying ?two)) (length (writes (ex_world_replying ?two)) + j) = ServerFault c) \<and>
      reply_at (prov (ex_world_replying ?two)) (length (writes (ex_world_replying ?two)) + 2) = Accepted"
    by (auto simp: reply_at_def hp less_Suc_eq numeral_2_eq_2)
  have f5: "\<forall>j<5. \<exists>c. reply_at (prov (ex_world_replying ?five)) (length (writes (ex_world_replying ?five)) + j) = ServerFault c"
    by (simp add: reply_at_def hp)
  have fr: "reply_at (prov (ex_world_replying ?rej)) (length (writes (ex_world_replying ?rej))) =
      Rejected ''UnauthorizedOperation''"
    by (simp add: reply_at_def hp)
  have up: "[0..<2] = [0, Suc 0]" "[0..<5] = [0, 1, 2, 3, 4]" "Suc 2 = 3"
    by (simp_all add: upt_rec)
  from retry_loop_outcomes [where self = ex_monkey and instances = ex_instances
      and volume = ex_volume and inst = ?inst and volumes = ex_volumes
      and snapshot = ex_snapshot and vol = ex_parent_volume
      and w = "ex_world_replying ?two" and k = 2,
      OF nd na p tg(1) lt(1) vne' q tg(2) lt(2) lt(3) sne'] f2
  have a: "retried (attempt_loop (tag_volume ex_monkey ex_volume ex_instances) ''volume'' (v_id ex_volume) 0 []
              (ex_world_replying ?two)) (ex_world_replying ?two) Success (Suc 2)
     (v_id ex_volume, volume_delta ex_monkey ex_volume (i_tags ?inst) (ex_world_replying ?two)) [0..<2]"
    by blast
  from retry_loop_outcomes [where self = ex_monkey and instances = ex_instances
      and volume = ex_volume and inst = ?inst and volumes = ex_volumes
      and snapshot = ex_snapshot and vol = ex_parent_volume
      and w = "ex_world_replying ?five" and k = 0,
      OF nd na p tg(1) lt(1) vne' q tg(2) lt(2) lt(3) sne'] f5
  have b: "retried (attempt_loop (tag_snapshot ex_monkey ex_snapshot ex_volumes) ''snapshot'' (s_id ex_snapshot) 0 []
              (ex_world_replying ?five)) (ex_world_replying ?five) ExhaustedFailure 5
     (s_id ex_snapshot, snapshot_delta ex_monkey ex_snapshot (v_tags ex_parent_volume) (ex_world_replying ?five)) [0..<5]"
    by blast
  from retry_loop_outcomes [where self = ex_monkey and instances = ex_instances
      and volume = ex_volume and inst = ?inst and volumes = ex_volumes
      and snapshot = ex_snapshot and vol = ex_parent_volume
      and w = "ex_world_replying ?rej" and k = 0,
      OF nd na p tg(1) lt(1) vne' q tg(2) lt(2) lt(3) sne'] fr
  have c: "retried (attempt_loop (tag_volume ex_monkey ex_volume ex_instances) ''volume'' (v_id ex_volume) 0 []
              (ex_world_replying ?rej)) (ex_world_replying ?rej) PermanentFailure 1
     (v_id ex_volume, volume_delta ex_monkey ex_volume (i_tags ?inst) (ex_world_replying ?rej)) []"
    by blast
  from a b c show ?thesis
    by (simp add: vd sd ids up)
qed

section \<open>The id filters\<close>

lemma prune_volumes_to_tag_subset:
  "set (volumes_to_tag (fst (prune_volumes_to_tag ids i self w))) \<subseteq> set (volumes_to_tag self)"
proof (induction ids i self w rule: prune_volumes_to_tag.induct)
  case (1 ids i self w)
  show ?case
  proof (cases "i < length (volumes_to_tag self)")
    case False
    then show ?thesis by (simp add: prune_volumes_to_tag.simps [of ids i self w])
  next
    case True
    show ?thesis
    proof (cases "volumes_to_tag self ! i \<in> set ids")
      case present: True
      have "prune_volumes_to_tag ids i self w = prune_volumes_to_tag ids (Suc i) self w"
        using True present by (simp add: prune_volumes_to_tag.simps [of ids i self w])
      then show ?thesis
        using "1.IH"(2) [OF True refl] present by simp
    next
      case absent: False
      let ?self' = "self\<lparr>volumes_to_tag := remove1 (volumes_to_tag self ! i) (volumes_to_tag self)\<rparr>"
      let ?w' = "log_msg INFO ''Volume %s does not exist and will not be tagged''
              [S (volumes_to_tag self ! i)] w"
      have eq: "prune_volumes_to_tag ids i self w = prune_volumes_to_tag ids (Suc i) ?self' ?w'"
        using True absent by (simp add: prune_volumes_to_tag.simps [of ids i self w] Let_def)
      have "set (volumes_to_tag (fst (prune_volumes_to_tag ids (Suc i) ?self' ?w'))) \<subseteq>
            set (volumes_to_tag ?self')"
        by (rule "1.IH"(1) [OF True refl absent])
      moreover have "set (volumes_to_tag ?self') \<subseteq> set (volumes_to_tag self)"
        by (simp add: set_remove1_subset)
      ultimately show ?thesis
        unfolding eq by blast
    qed
  qed
qed

lemma prune_volumes_to_tag_keeps:
  "x \<in> set (volumes_to_tag self) \<Longrightarrow> x \<in> set ids \<Longrightarrow>
   x \<in> set (volumes_to_tag (fst (prune_volumes_to_tag ids i self w)))"
proof (induction ids i self w rule: prune_volumes_to_tag.induct)
  case (1 ids i self w)
  show ?case
  proof (cases "i < length (volumes_to_tag self)")
    case False
    then show ?thesis
      using "1.prems" by (simp add: prune_volumes_to_tag.simps [of ids i self w])
  next
    case True
    show ?thesis
    proof (cases "volumes_to_tag self ! i \<in> set ids")
      case present: True
      have "prune_volumes_to_tag ids i self w = prune_volumes_to_tag ids (Suc i) self w"
        using True present by (simp add: prune_volumes_to_tag.simps [of ids i self w])
      then show ?thesis
        using "1.IH"(2) [OF True refl _ "1.prems"] present by simp
    next
      case absent: False
      let ?y = "volumes_to_tag self ! i"
      let ?self' = "self\<lparr>volumes_to_tag := remove1 ?y (volumes_to_tag self)\<rparr>"
      let ?w' = "log_msg INFO ''Volume %s does not exist and will not be tagged'' [S ?y] w"
      have eq: "prune_volumes_to_tag ids i self w = prune_volumes_to_tag ids (Suc i) ?self' ?w'"
        using True absent by (simp add: prune_volumes_to_tag.simps [of ids i self w] Let_def)
      from absent "1.prems"(2) have "x \<noteq> ?y" by blast
      with "1.prems"(1) have "x \<in> set (volumes_to_tag ?self')" by simp
      from "1.IH"(1) [OF True refl absent this "1.prems"(2)] show ?thesis
        unfolding eq .
    qed
  qed
qed

lemma map_v_id_objects:
  "length refs = length entries \<Longrightarrow> map v_id (map2 volume_object entries refs) = map fst entries"
proof (induction entries arbitrary: refs)
  case Nil
  then show ?case by simp
next
  case (Cons e entries)
  then obtain r rs where "refs = r # rs" by (cases refs) auto
  with Cons show ?case by (simp add: volume_object_def)
qed

lemma get_all_volumes_ids:
  "map v_id (fst (get_all_volumes flt w)) =
     map fst (filter (\<lambda>entry. id_selected flt (fst entry)) (sorted_list_of_fmap (p_volumes (prov w))))"
proof -
  let ?entries = "filter (\<lambda>entry. id_selected flt (fst entry)) (sorted_list_of_fmap (p_volumes (prov w)))"
  have "fst (get_all_volumes flt w) =
      map2 volume_object ?entries [next_ref w ..< next_ref w + length ?entries]"
    by (simp add: get_all_volumes_def Let_def)
  moreover have "length [next_ref w ..< next_ref w + length ?entries] = length ?entries"
    by simp
  ultimately show ?thesis
    by (simp only: map_v_id_objects)
qed

lemma set_sorted_list_of_fmap_keys:
  "fst ` set (sorted_list_of_fmap m) = fset (fmdom m)"
  by (force simp: sorted_list_of_fmap_def)

lemma get_all_volumes_id_set:
  "set (map v_id (fst (get_all_volumes (Some ids) w))) = set ids \<inter> fset (fmdom (p_volumes (prov w)))"
proof -
  have "set (map v_id (fst (get_all_volumes (Some ids) w))) =
      {i \<in> fst ` set (sorted_list_of_fmap (p_volumes (prov w))). i \<in> set ids}"
    by (auto simp: get_all_volumes_ids id_selected_def)
  then show ?thesis
    by (auto simp: set_sorted_list_of_fmap_keys)
qed

lemma list_volumes_filter:
  "set (volumes_to_tag (fst (snd (list_volumes self w)))) \<subseteq> set (volumes_to_tag self) \<and>
   (\<forall>i \<in> set (volumes_to_tag self).
      i |\<in>| fmdom (p_volumes (prov w)) \<longrightarrow> i \<in> set (volumes_to_tag (fst (snd (list_volumes self w)))))"
proof (cases "volumes_to_tag self = []")
  case True
  then show ?thesis by (simp add: list_volumes_def Let_def case_prod_beta)
next
  case False
  let ?w1 = "log_msg INFO ''Using volume list from cli/config file'' [] w"
  let ?g = "get_all_volumes (Some (volumes_to_tag self)) ?w1"
  have eq: "fst (snd (list_volumes self w)) =
      fst (prune_volumes_to_tag (map v_id (fst ?g)) 0 self (snd ?g))"
    using False by (simp add: list_volumes_def Let_def case_prod_beta)
  have ids: "set (map v_id (fst ?g)) = set (volumes_to_tag self) \<inter> fset (fmdom (p_volumes (prov w)))"
    by (simp only: get_all_volumes_id_set log_msg_frame)
  show ?thesis
    unfolding eq
  proof (intro conjI ballI impI)
    show "set (volumes_to_tag (fst (prune_volumes_to_tag (map v_id (fst ?g)) 0 self (snd ?g)))) \<subseteq>
        set (volumes_to_tag self)"
      by (rule prune_volumes_to_tag_subset)
  next
    fix i assume i: "i \<in> set (volumes_to_tag self)" and p: "i |\<in>| fmdom (p_volumes (prov w))"
    then have "i \<in> set (map v_id (fst ?g))" unfolding ids by simp
    from prune_volumes_to_tag_keeps [OF i this]
    show "i \<in> set (volumes_to_tag (fst (prune_volumes_to_tag (map v_id (fst ?g)) 0 self (snd ?g))))" .
  qed
qed

lemma tag_volumes_self: "fst (snd (tag_volumes self w)) = fst (snd (list_volumes self w))"
  by (simp add: tag_volumes_def Let_def split: prod.splits sum.splits)

lemma propagate_tags_self:
  "fst (snd (propagate_tags self w)) =
     (if novolumes self then self else fst (snd (list_volumes self w)))"
proof -
  let ?first = "if \<not> novolumes self then tag_volumes self w else (Inr None, self, w)"
  obtain r self1 w1 where t: "?first = (r, self1, w1)" by (cases ?first)
  have s1: "self1 = (if novolumes self then self else fst (snd (list_volumes self w)))"
    using t tag_volumes_self [of self w] by (auto split: if_splits)
  have "fst (snd (propagate_tags self w)) = self1"
    unfolding propagate_tags_def t by (simp split: sum.splits prod.splits)
  with s1 show ?thesis by simp
qed

text \<open>
  Claim C5, at the inputs where the code departs from it. With the volume ids \<^verbatim>\<open>v-8\<close>,
  \<^verbatim>\<open>v-9\<close>, \<^verbatim>\<open>v-1\<close> requested and only \<^verbatim>\<open>v-1\<close> in the inventory, the loop at lines 108 to 111
  removes \<^verbatim>\<open>v-8\<close> and, having shortened the list it iterates over, never looks at
  \<^verbatim>\<open>v-9\<close>, which stays in the filter. With any snapshot id requested, the loop at lines
  215 to 218 raises \<^verbatim>\<open>NameError\<close> in its first round and the stage is left without a single
  snapshot processed.
\<close>

theorem id_filter_pruning_failing_inputs:
  "volumes_to_tag
     (fst (snd (tag_volumes (ex_monkey\<lparr>volumes_to_tag := [''v-8'', ''v-9'', ''v-1'']\<rparr>) ex_world))) =
     [''v-9'', ''v-1''] \<and>
   fmlookup (p_volumes (prov ex_world)) ''v-9'' = None \<and>
   fst (tag_snapshots (ex_monkey\<lparr>snapshots_to_tag := [''s-1'']\<rparr>) ex_world) =
     Inl (NameError ''volume_id'') \<and>
   writes (snd (tag_snapshots (ex_monkey\<lparr>snapshots_to_tag := [''s-1'']\<rparr>) ex_world)) = [] \<and>
   fmlookup (p_snapshots (prov ex_world)) ''s-1'' =
     Some \<lparr>ps_volume_id = ''v-1'', ps_owner = ''acct'', ps_tags = fmempty\<rparr>"
proof -
  have a: "volumes_to_tag
     (fst (snd (tag_volumes (ex_monkey\<lparr>volumes_to_tag := [''v-8'', ''v-9'', ''v-1'']\<rparr>) ex_world))) =
     [''v-9'', ''v-1'']"
    by code_simp
  have b: "fmlookup (p_volumes (prov ex_world)) ''v-9'' = None"
    by code_simp
  have c: "fst (tag_snapshots (ex_monkey\<lparr>snapshots_to_tag := [''s-1'']\<rparr>) ex_world) =
     Inl (NameError ''volume_id'')"
    by code_simp
  have d: "writes (snd (tag_snapshots (ex_monkey\<lparr>snapshots_to_tag := [''s-1'']\<rparr>) ex_world)) = []"
    by code_simp
  have e: "fmlookup (p_snapshots (prov ex_world)) ''s-1'' =
     Some \<lparr>ps_volume_id = ''v-1'', ps_owner = ''acct'', ps_tags = fmempty\<rparr>"
    by code_simp
  show ?thesis
    by (rule conjI [OF a conjI [OF b conjI [OF c conjI [OF d e]]]])
qed




section \<open>The snapshot listing\<close>

lemma set_sorted_list_of_fmap:
  "set (sorted_list_of_fmap m) = {entry. fmlookup m (fst entry) = Some (snd entry)}"
proof (rule set_eqI)
  fix entry :: "'a \<times> 'b"
  obtain k v where kv: "entry = (k, v)" by (cases entry)
  have s: "set (sorted_list_of_fmap m) = (\<lambda>k. (k, the (fmlookup m k))) ` fset (fmdom m)"
    by (simp add: sorted_list_of_fmap_def)
  have "(k, v) \<in> (\<lambda>k. (k, the (fmlookup m k))) ` fset (fmdom m) \<longleftrightarrow>
      k |\<in>| fmdom m \<and> v = the (fmlookup m k)"
    by auto
  also have "\<dots> \<longleftrightarrow> fmlookup m k = Some v"
  proof (cases "fmlookup m k")
    case None
    then have "k |\<notin>| fmdom m" by (rule fmdom_notI)
    with None show ?thesis by simp
  next
    case (Some x)
    then have "k |\<in>| fmdom m" by (rule fmdomI)
    with Some show ?thesis by auto
  qed
  finally show "entry \<in> set (sorted_list_of_fmap m) \<longleftrightarrow>
      entry \<in> {entry. fmlookup m (fst entry) = Some (snd entry)}"
    by (simp add: s kv)
qed

lemma map_s_id_objects:
  "length refs = length entries \<Longrightarrow> map s_id (map2 snapshot_object entries refs) = map fst entries"
proof (induction entries arbitrary: refs)
  case Nil
  then show ?case by simp
next
  case (Cons e entries)
  then obtain r rs where "refs = r # rs" by (cases refs) auto
  with Cons show ?case by (simp add: snapshot_object_def)
qed

lemma get_all_snapshots_ids:
  "map s_id (fst (get_all_snapshots owner flt w)) =
     map fst (filter (\<lambda>entry. owner_matches (prov w) owner (snd entry) \<and> id_selected flt (fst entry))
       (sorted_list_of_fmap (p_snapshots (prov w))))"
proof -
  let ?entries = "filter (\<lambda>entry. owner_matches (prov w) owner (snd entry) \<and> id_selected flt (fst entry))
       (sorted_list_of_fmap (p_snapshots (prov w)))"
  have "fst (get_all_snapshots owner flt w) =
      map2 snapshot_object ?entries [next_ref w ..< next_ref w + length ?entries]"
    by (simp add: get_all_snapshots_def Let_def)
  moreover have "length [next_ref w ..< next_ref w + length ?entries] = length ?entries"
    by simp
  ultimately show ?thesis
    by (simp only: map_s_id_objects)
qed

lemma get_all_snapshots_self:
  "s_id ` set (fst (get_all_snapshots (Some ''self'') flt w)) =
     {i. \<exists>e. fmlookup (p_snapshots (prov w)) i = Some e \<and> ps_owner e = account (prov w) \<and>
              id_selected flt i}"
proof -
  have "s_id ` set (fst (get_all_snapshots (Some ''self'') flt w)) =
      set (map s_id (fst (get_all_snapshots (Some ''self'') flt w)))"
    by simp
  also have "\<dots> = fst ` {entry \<in> set (sorted_list_of_fmap (p_snapshots (prov w))).
      owner_matches (prov w) (Some ''self'') (snd entry) \<and> id_selected flt (fst entry)}"
    by (simp only: get_all_snapshots_ids set_map set_filter)
  also have "\<dots> = {i. \<exists>e. fmlookup (p_snapshots (prov w)) i = Some e \<and>
      ps_owner e = account (prov w) \<and> id_selected flt i}"
  proof (rule set_eqI)
    fix i
    show "i \<in> fst ` {entry \<in> set (sorted_list_of_fmap (p_snapshots (prov w))).
        owner_matches (prov w) (Some ''self'') (snd entry) \<and> id_selected flt (fst entry)} \<longleftrightarrow>
      i \<in> {i. \<exists>e. fmlookup (p_snapshots (prov w)) i = Some e \<and>
        ps_owner e = account (prov w) \<and> id_selected flt i}"
    proof
      assume "i \<in> fst ` {entry \<in> set (sorted_list_of_fmap (p_snapshots (prov w))).
        owner_matches (prov w) (Some ''self'') (snd entry) \<and> id_selected flt (fst entry)}"
      then obtain entry where "entry \<in> set (sorted_list_of_fmap (p_snapshots (prov w)))"
        and "owner_matches (prov w) (Some ''self'') (snd entry)"
        and "id_selected flt (fst entry)" and "i = fst entry"
        by auto
      then show "i \<in> {i. \<exists>e. fmlookup (p_snapshots (prov w)) i = Some e \<and>
        ps_owner e = account (prov w) \<and> id_selected flt i}"
        by (simp add: set_sorted_list_of_fmap owner_matches_def)
    next
      assume "i \<in> {i. \<exists>e. fmlookup (p_snapshots (prov w)) i = Some e \<and>
        ps_owner e = account (prov w) \<and> id_selected flt i}"
      then obtain e where "fmlookup (p_snapshots (prov w)) i = Some e"
        and "ps_owner e = account (prov w)" and "id_selected flt i"
        by auto
      then have "(i, e) \<in> {entry \<in> set (sorted_list_of_fmap (p_snapshots (prov w))).
        owner_matches (prov w) (Some ''self'') (snd entry) \<and> id_selected flt (fst entry)}"
        by (simp add: set_sorted_list_of_fmap owner_matches_def)
      then show "i \<in> fst ` {entry \<in> set (sorted_list_of_fmap (p_snapshots (prov w))).
        owner_matches (prov w) (Some ''self'') (snd entry) \<and> id_selected flt (fst entry)}"
        by (rule image_eqI [rotated]) simp
    qed
  qed
  finally show ?thesis .
qed

lemma listed_snapshots_eq:
  "listed_snapshots self w =
     fst (get_all_snapshots (Some ''self'')
            (if snapshots_to_tag self \<noteq> [] then Some (snapshots_to_tag self) else None)
            (if snapshots_to_tag self \<noteq> []
             then log_msg INFO ''Using volume list from cli/config file'' []
                    (log_msg INFO ''Using snapshot list from cli/config file'' [] w)
             else log_msg INFO ''Getting list of all snapshots'' [] w))"
  by (simp add: listed_snapshots_def Let_def case_prod_beta)

lemma list_snapshots_listed:
  "fst (list_snapshots self w) =
     (if snapshots_to_tag self \<noteq> [] then Inl (NameError ''volume_id'')
      else Inr (listed_snapshots self w))"
  by (simp add: list_snapshots_def listed_snapshots_def Let_def case_prod_beta split: list.splits)

text \<open>
  Claim C10. The snapshots that the stage lists, with a list of snapshot ids in the
  configuration (lines 205 to 210) or without one (line 221), are the snapshots of the
  provider's inventory that the caller's account owns, among the requested ids when ids
  are requested. A snapshot owned by another account is never in the list, also when its
  id is requested. The listing is all the stage works on: without requested ids it is the
  list the stage goes through, and with requested ids the stage ends at line 216.
\<close>

theorem listed_snapshots_owner_self:
  "s_id ` set (listed_snapshots self w) =
     {i. \<exists>e. fmlookup (p_snapshots (prov w)) i = Some e \<and> ps_owner e = account (prov w) \<and>
              (snapshots_to_tag self = [] \<or> i \<in> set (snapshots_to_tag self))} \<and>
   (\<forall>i e. fmlookup (p_snapshots (prov w)) i = Some e \<and> ps_owner e \<noteq> account (prov w) \<longrightarrow>
      i \<notin> s_id ` set (listed_snapshots self w)) \<and>
   fst (list_snapshots self w) =
     (if snapshots_to_tag self \<noteq> [] then Inl (NameError ''volume_id'')
      else Inr (listed_snapshots self w))"
proof -
  have a: "s_id ` set (listed_snapshots self w) =
     {i. \<exists>e. fmlookup (p_snapshots (prov w)) i = Some e \<and> ps_owner e = account (prov w) \<and>
              (snapshots_to_tag self = [] \<or> i \<in> set (snapshots_to_tag self))}"
  proof (cases "snapshots_to_tag self = []")
    case True
    then show ?thesis
      by (simp add: listed_snapshots_eq get_all_snapshots_self id_selected_def)
  next
    case False
    then show ?thesis
      by (simp add: listed_snapshots_eq get_all_snapshots_self id_selected_def)
  qed
  have b: "\<forall>i e. fmlookup (p_snapshots (prov w)) i = Some e \<and> ps_owner e \<noteq> account (prov w) \<longrightarrow>
      i \<notin> s_id ` set (listed_snapshots self w)"
    unfolding a by auto
  show ?thesis
    by (rule conjI [OF a conjI [OF b list_snapshots_listed]])
qed

theorem listed_snapshots_owner_self_witness:
  "fmlookup (p_snapshots (prov ex_world)) ''s-9'' =
     Some \<lparr>ps_volume_id = ''v-1'', ps_owner = ''other'', ps_tags = fmempty\<rparr> \<and>
   ''other'' \<noteq> account (prov ex_world) \<and>
   ''s-9'' \<in> set (snapshots_to_tag ex_shared_request) \<and>
   ''s-9'' \<notin> s_id ` set (listed_snapshots ex_shared_request ex_world) \<and>
   map s_id (listed_snapshots ex_shared_request ex_world) = [''s-1''] \<and>
   map s_id (listed_snapshots ex_monkey ex_world) = [''s-1'']"
proof -
  define e where "e = \<lparr>ps_volume_id = ''v-1'', ps_owner = ''other'', ps_tags = fmempty\<rparr>"
  have a: "fmlookup (p_snapshots (prov ex_world)) ''s-9'' = Some e"
    unfolding e_def by code_simp
  have b: "''other'' \<noteq> account (prov ex_world)"
    by code_simp
  have b': "ps_owner e \<noteq> account (prov ex_world)"
    using b by (simp add: e_def)
  have c: "''s-9'' \<in> set (snapshots_to_tag ex_shared_request)"
    by (simp add: ex_shared_request_def)
  note T = listed_snapshots_owner_self [of ex_shared_request ex_world]
  have t2: "\<forall>i e. fmlookup (p_snapshots (prov ex_world)) i = Some e \<and>
        ps_owner e \<noteq> account (prov ex_world) \<longrightarrow>
      i \<notin> s_id ` set (listed_snapshots ex_shared_request ex_world)"
    by (rule conjunct1 [OF conjunct2 [OF T]])
  have d: "''s-9'' \<notin> s_id ` set (listed_snapshots ex_shared_request ex_world)"
    by (rule mp [OF spec [OF spec [OF t2]] conjI [OF a b']])
  have f: "map s_id (listed_snapshots ex_shared_request ex_world) = [''s-1'']"
    by code_simp
  have g: "map s_id (listed_snapshots ex_monkey ex_world) = [''s-1'']"
    by code_simp
  show ?thesis
    unfolding e_def [symmetric]
    by (rule conjI [OF a conjI [OF b conjI [OF c conjI [OF d conjI [OF f g]]]]])
qed

end
